theory Spec2Isabelle
  imports Main "HOL-Library.Char_ord" "HOL-Library.List_Lexorder"
begin

section \<open>Search executor of szurubooru (server/szurubooru/search/executor.py)\<close>

text \<open>
  The development embeds \<^verbatim>\<open>executor.py\<close>: the helpers \<^verbatim>\<open>_format_dict_keys\<close> and
  \<^verbatim>\<open>_get_direction\<close>, and the methods \<^verbatim>\<open>Executor.execute\<close> and
  \<^verbatim>\<open>Executor._prepare_db_query\<close>. Python names that start with an underscore lose it
  (an Isabelle name starts with a letter). Strings are \<open>char list\<close> ordered
  lexicographically by character code, as Python orders \<^verbatim>\<open>str\<close>; Python integers are
  \<open>int\<close>.
\<close>

subsection \<open>Token model\<close>

text \<open>
  Modelled from the spec: the module \<^verbatim>\<open>szurubooru.search.tokens\<close> is not part of the
  sources at hand. The four direction constants \<^verbatim>\<open>SortToken.SORT_ASC\<close>,
  \<^verbatim>\<open>SORT_DESC\<close>, \<^verbatim>\<open>SORT_DEFAULT\<close> and \<^verbatim>\<open>SORT_NEGATED_DEFAULT\<close> are the four
  values of the enumeration SortDirection; the token classes carry the fields that
  the executor reads.
\<close>

datatype sort_direction = SORT_ASC | SORT_DESC | SORT_DEFAULT | SORT_NEGATED_DEFAULT

record anonymous_token =
  at_criterion :: string
  at_negated :: bool

record named_token =
  nt_name :: string
  nt_criterion :: string
  nt_negated :: bool

record special_token =
  sp_value :: string
  sp_negated :: bool

record sort_token =
  st_name :: string
  st_direction :: sort_direction
  st_negated :: bool

record search_query =
  anonymous_tokens :: "anonymous_token list"
  named_tokens :: "named_token list"
  special_tokens :: "special_token list"
  sort_tokens :: "sort_token list"

subsection \<open>Errors\<close>

text \<open>
  A \<^verbatim>\<open>SearchError\<close> is represented by the arguments of its message: the format
  string is fixed per constructor, so the message text is a function of these values.
  \<^item> \<open>AnonymousNotValid\<close>: \<^verbatim>\<open>'Anonymous tokens are not valid in this context.'\<close>
  \<^item> \<open>UnknownNamedToken n ks\<close>:
    \<^verbatim>\<open>'Unknown named token: %r. Available named tokens: %r.' % (n, ks)\<close>
  \<^item> \<open>UnknownSpecialToken v ks\<close> and \<open>UnknownSortToken n ks\<close>: likewise.

  \<open>AssertionError\<close> is the \<^verbatim>\<open>assert False\<close> of \<^verbatim>\<open>_get_direction\<close>. \<open>DatabaseError\<close>
  stands for a statement the database refuses (a negative OFFSET or LIMIT), and
  \<open>KeyError\<close> for a cache read of an absent key.
\<close>

datatype search_error_message =
    AnonymousNotValid
  | UnknownNamedToken string "string list"
  | UnknownSpecialToken string "string list"
  | UnknownSortToken string "string list"

datatype error =
    SearchError search_error_message
  | AssertionError
  | DatabaseError
  | KeyError

subsection \<open>Module-level helpers\<close>

text \<open>
  A Python \<^verbatim>\<open>dict\<close> with string keys is an association list in insertion order; a
  well-formed one has distinct keys. Membership \<^verbatim>\<open>k in d\<close> and the read \<^verbatim>\<open>d[k]\<close>
  are \<open>map_of d k\<close>.
\<close>

type_synonym 'v dict = "(string \<times> 'v) list"

definition dict_keys :: "'v dict \<Rightarrow> string list" where
  "dict_keys source = map fst source"

text \<open>\<^verbatim>\<open>def _format_dict_keys(source): return list(sorted(source.keys()))\<close>\<close>

definition format_dict_keys :: "'v dict \<Rightarrow> string list" where
  "format_dict_keys source = sort (dict_keys source)"

text \<open>
  \<^verbatim>\<open>_get_direction(direction, default_direction)\<close>. The branch \<^verbatim>\<open>assert False\<close> is
  the result \<open>Inl AssertionError\<close>.
\<close>

definition get_direction :: "sort_direction \<Rightarrow> sort_direction \<Rightarrow> error + sort_direction" where
  "get_direction direction default_direction =
     (if direction = SORT_DEFAULT then Inr default_direction
      else if direction = SORT_NEGATED_DEFAULT then
        (if default_direction = SORT_ASC then Inr SORT_DESC
         else if default_direction = SORT_DESC then Inr SORT_ASC
         else Inl AssertionError)
      else Inr direction)"

subsection \<open>The backing query source\<close>

text \<open>
  The executor builds SQLAlchemy queries and hands them to the database. The model
  keeps what the executor and the claims use of a query over one entity table: the
  accumulated WHERE predicates, the ORDER BY clauses in the order they were added, the
  loader options, and OFFSET and LIMIT. A column is its value on a row, in a linearly
  ordered type \<open>'k\<close>.
\<close>

datatype ('e, 'k) order_clause = Asc "'e \<Rightarrow> 'k" | Desc "'e \<Rightarrow> 'k"

datatype loader_option = LazyLoadAll

record ('e, 'k) query =
  where_clauses :: "('e \<Rightarrow> bool) list"
  order_clauses :: "('e, 'k) order_clause list"
  loader_options :: "loader_option list"
  offset_value :: "int option"
  limit_value :: "int option"

text \<open>\<^verbatim>\<open>query.options(opt)\<close>, \<^verbatim>\<open>query.order_by(clause)\<close> (a further call adds a
  further criterion after the present ones), \<^verbatim>\<open>query.filter(criterion)\<close> (a further
  call adds a further conjunct), \<^verbatim>\<open>query.offset(n)\<close>, \<^verbatim>\<open>query.limit(n)\<close>,
  \<^verbatim>\<open>column.asc()\<close> and \<^verbatim>\<open>column.desc()\<close>.\<close>

definition query_options :: "loader_option \<Rightarrow> ('e, 'k) query \<Rightarrow> ('e, 'k) query" where
  "query_options opt q = q\<lparr>loader_options := loader_options q @ [opt]\<rparr>"

definition query_order_by :: "('e, 'k) order_clause \<Rightarrow> ('e, 'k) query \<Rightarrow> ('e, 'k) query" where
  "query_order_by c q = q\<lparr>order_clauses := order_clauses q @ [c]\<rparr>"

definition query_filter :: "('e \<Rightarrow> bool) \<Rightarrow> ('e, 'k) query \<Rightarrow> ('e, 'k) query" where
  "query_filter criterion q = q\<lparr>where_clauses := where_clauses q @ [criterion]\<rparr>"

definition query_offset :: "int \<Rightarrow> ('e, 'k) query \<Rightarrow> ('e, 'k) query" where
  "query_offset n q = q\<lparr>offset_value := Some n\<rparr>"

definition query_limit :: "int \<Rightarrow> ('e, 'k) query \<Rightarrow> ('e, 'k) query" where
  "query_limit n q = q\<lparr>limit_value := Some n\<rparr>"

definition column_asc :: "('e \<Rightarrow> 'k) \<Rightarrow> ('e, 'k) order_clause" where
  "column_asc column = Asc column"

definition column_desc :: "('e \<Rightarrow> 'k) \<Rightarrow> ('e, 'k) order_clause" where
  "column_desc column = Desc column"

text \<open>
  Evaluation against the rows of the table. A row matches when every WHERE predicate
  holds of it. ORDER BY \<open>c\<^sub>1, c\<^sub>2, \<dots>\<close> compares two rows on \<open>c\<^sub>1\<close> first and on the
  later clauses only where the earlier ones tie; the rows are put in that order by a
  stable insertion sort. The database refuses a negative OFFSET or LIMIT.
\<close>

definition matching_rows :: "('e \<Rightarrow> bool) list \<Rightarrow> 'e list \<Rightarrow> 'e list" where
  "matching_rows ps rows = filter (\<lambda>e. list_all (\<lambda>p. p e) ps) rows"

fun clause_before :: "('e, 'k::linorder) order_clause \<Rightarrow> 'e \<Rightarrow> 'e \<Rightarrow> bool" where
  "clause_before (Asc column) a b = (column a < column b)"
| "clause_before (Desc column) a b = (column b < column a)"

fun clause_tie :: "('e, 'k) order_clause \<Rightarrow> 'e \<Rightarrow> 'e \<Rightarrow> bool" where
  "clause_tie (Asc column) a b = (column a = column b)"
| "clause_tie (Desc column) a b = (column a = column b)"

fun order_le :: "('e, 'k::linorder) order_clause list \<Rightarrow> 'e \<Rightarrow> 'e \<Rightarrow> bool" where
  "order_le [] a b = True"
| "order_le (c # cs) a b = (clause_before c a b \<or> (clause_tie c a b \<and> order_le cs a b))"

fun insert_row :: "('e \<Rightarrow> 'e \<Rightarrow> bool) \<Rightarrow> 'e \<Rightarrow> 'e list \<Rightarrow> 'e list" where
  "insert_row le x [] = [x]"
| "insert_row le x (y # ys) = (if le x y then x # y # ys else y # insert_row le x ys)"

definition sort_rows :: "('e, 'k::linorder) order_clause list \<Rightarrow> 'e list \<Rightarrow> 'e list" where
  "sort_rows cs rows = foldr (insert_row (order_le cs)) rows []"

definition negative :: "int option \<Rightarrow> bool" where
  "negative n = (case n of None \<Rightarrow> False | Some i \<Rightarrow> i < 0)"

definition skip_rows :: "int option \<Rightarrow> 'a list \<Rightarrow> 'a list" where
  "skip_rows off rows = (case off of None \<Rightarrow> rows | Some n \<Rightarrow> drop (nat n) rows)"

definition first_rows :: "int option \<Rightarrow> 'a list \<Rightarrow> 'a list" where
  "first_rows lim rows = (case lim of None \<Rightarrow> rows | Some n \<Rightarrow> take (nat n) rows)"

definition window :: "int option \<Rightarrow> int option \<Rightarrow> 'a list \<Rightarrow> error + 'a list" where
  "window off lim rows =
     (if negative off \<or> negative lim then Inl DatabaseError
      else Inr (first_rows lim (skip_rows off rows)))"

text \<open>\<^verbatim>\<open>query.all()\<close>: the entities the query selects, in its order.\<close>

definition query_all :: "'e list \<Rightarrow> ('e, 'k::linorder) query \<Rightarrow> error + 'e list" where
  "query_all rows q =
     window (offset_value q) (limit_value q)
       (sort_rows (order_clauses q) (matching_rows (where_clauses q) rows))"

text \<open>
  \<^verbatim>\<open>query.statement\<close> is the SELECT of the query: loader options belong to the ORM
  and are not part of it. \<^verbatim>\<open>.with_only_columns([sqlalchemy.func.count()])\<close> turns it
  into an aggregate over the matching rows, \<^verbatim>\<open>.order_by(None)\<close> removes its ORDER BY.
  The aggregate has one result row, to which OFFSET and LIMIT still apply;
  \<^verbatim>\<open>.scalar()\<close> is the first column of the first result row, or \<^verbatim>\<open>None\<close> when there
  is no row.
\<close>

record ('e, 'k) select_statement =
  s_where :: "('e \<Rightarrow> bool) list"
  s_order :: "('e, 'k) order_clause list"
  s_offset :: "int option"
  s_limit :: "int option"

record ('e, 'k) count_statement =
  c_where :: "('e \<Rightarrow> bool) list"
  c_order :: "('e, 'k) order_clause list"
  c_offset :: "int option"
  c_limit :: "int option"

definition query_statement :: "('e, 'k) query \<Rightarrow> ('e, 'k) select_statement" where
  "query_statement q =
     \<lparr>s_where = where_clauses q, s_order = order_clauses q,
      s_offset = offset_value q, s_limit = limit_value q\<rparr>"

definition with_only_columns_count :: "('e, 'k) select_statement \<Rightarrow> ('e, 'k) count_statement" where
  "with_only_columns_count s =
     \<lparr>c_where = s_where s, c_order = s_order s, c_offset = s_offset s, c_limit = s_limit s\<rparr>"

definition order_by_none :: "('e, 'k) count_statement \<Rightarrow> ('e, 'k) count_statement" where
  "order_by_none s = s\<lparr>c_order := []\<rparr>"

definition session_execute_scalar :: "'e list \<Rightarrow> ('e, 'k) count_statement \<Rightarrow> error + int option" where
  "session_execute_scalar rows s =
     (case window (c_offset s) (c_limit s) [int (length (matching_rows (c_where s) rows))] of
        Inl e \<Rightarrow> Inl e
      | Inr [] \<Rightarrow> Inr None
      | Inr (n # _) \<Rightarrow> Inr (Some n))"

subsection \<open>Search configuration, cache and executor\<close>

text \<open>
  Modelled from the spec: the SearchConfig classes are not part of the sources at
  hand. A configuration has an optional handler of anonymous tokens, the
  dictionaries of the handlers of named and of special tokens, the dictionary of
  sortable columns with their default directions, the finalization hook and the two
  query factories. \<open>obj_id\<close> is the identity of the instance, which \<^verbatim>\<open>id()\<close> reads:
  two instances have two identities, whatever their contents.
\<close>

record ('e, 'k) search_config =
  obj_id :: nat
  anonymous_filter :: "(('e, 'k) query \<Rightarrow> string \<Rightarrow> bool \<Rightarrow> ('e, 'k) query) option"
  named_filters :: "(('e, 'k) query \<Rightarrow> string \<Rightarrow> bool \<Rightarrow> ('e, 'k) query) dict"
  special_filters :: "(('e, 'k) query \<Rightarrow> bool \<Rightarrow> ('e, 'k) query) dict"
  sort_columns :: "(('e \<Rightarrow> 'k) \<times> sort_direction) dict"
  finalize_query :: "('e, 'k) query \<Rightarrow> ('e, 'k) query"
  create_filter_query :: "('e, 'k) query"
  create_count_query :: "('e, 'k) query"

definition py_id :: "('e, 'k) search_config \<Rightarrow> nat" where
  "py_id c = obj_id c"

text \<open>
  Modelled from the spec: the module \<^verbatim>\<open>szurubooru.func.cache\<close> is not part of the
  sources at hand. The cache is an unbounded memo table with \<^verbatim>\<open>has\<close>, \<^verbatim>\<open>get\<close> and
  \<^verbatim>\<open>put\<close>; keys compare by the value of their components.
\<close>

type_synonym cache_key = "nat \<times> string \<times> int \<times> int"

type_synonym 'e search_result = "int option \<times> 'e list"

type_synonym 'e cache = "cache_key \<rightharpoonup> 'e search_result"

definition cache_has :: "'e cache \<Rightarrow> cache_key \<Rightarrow> bool" where
  "cache_has c key = (c key \<noteq> None)"

definition cache_get :: "'e cache \<Rightarrow> cache_key \<Rightarrow> error + 'e search_result" where
  "cache_get c key = (case c key of None \<Rightarrow> Inl KeyError | Some v \<Rightarrow> Inr v)"

definition cache_put :: "'e cache \<Rightarrow> cache_key \<Rightarrow> 'e search_result \<Rightarrow> 'e cache" where
  "cache_put c key v = c(key \<mapsto> v)"

text \<open>
  The state outside the executor: the process-wide cache, the rows of the entity
  table, and a trace of the effects, in the order they happen: a parse of a query
  text, the execution of a row query, the execution of a count statement, a write
  to the cache.
\<close>

datatype event = EvParse string | EvQueryAll | EvQueryScalar | EvCachePut cache_key

record 'e world =
  cache :: "'e cache"
  dataset :: "'e list"
  trace :: "event list"

definition emit :: "event \<Rightarrow> 'e world \<Rightarrow> 'e world" where
  "emit ev w = w\<lparr>trace := trace w @ [ev]\<rparr>"

text \<open>\<^verbatim>\<open>Executor.__init__\<close> stores the configuration and a parser.\<close>

record ('e, 'k) executor =
  config :: "('e, 'k) search_config"
  parser :: "string \<Rightarrow> search_query"

subsection \<open>Executor._prepare_db_query\<close>

text \<open>
  The four loops of \<^verbatim>\<open>_prepare_db_query\<close>, one function each; every \<^verbatim>\<open>raise\<close> is
  an \<open>Inl\<close> that ends the loop. The handlers of the configuration are functions from
  queries to queries, as the contract of the configuration gives them.
\<close>

fun apply_anonymous_tokens ::
  "('e, 'k) search_config \<Rightarrow> ('e, 'k) query \<Rightarrow> anonymous_token list \<Rightarrow> error + ('e, 'k) query" where
  "apply_anonymous_tokens cfg db_query [] = Inr db_query"
| "apply_anonymous_tokens cfg db_query (token # rest) =
     (case anonymous_filter cfg of
        None \<Rightarrow> Inl (SearchError AnonymousNotValid)
      | Some f \<Rightarrow>
          apply_anonymous_tokens cfg (f db_query (at_criterion token) (at_negated token)) rest)"

fun apply_named_tokens ::
  "('e, 'k) search_config \<Rightarrow> ('e, 'k) query \<Rightarrow> named_token list \<Rightarrow> error + ('e, 'k) query" where
  "apply_named_tokens cfg db_query [] = Inr db_query"
| "apply_named_tokens cfg db_query (token # rest) =
     (case map_of (named_filters cfg) (nt_name token) of
        None \<Rightarrow>
          Inl (SearchError
            (UnknownNamedToken (nt_name token) (format_dict_keys (named_filters cfg))))
      | Some f \<Rightarrow>
          apply_named_tokens cfg (f db_query (nt_criterion token) (nt_negated token)) rest)"

fun apply_special_tokens ::
  "('e, 'k) search_config \<Rightarrow> ('e, 'k) query \<Rightarrow> special_token list \<Rightarrow> error + ('e, 'k) query" where
  "apply_special_tokens cfg db_query [] = Inr db_query"
| "apply_special_tokens cfg db_query (token # rest) =
     (case map_of (special_filters cfg) (sp_value token) of
        None \<Rightarrow>
          Inl (SearchError
            (UnknownSpecialToken (sp_value token) (format_dict_keys (special_filters cfg))))
      | Some f \<Rightarrow> apply_special_tokens cfg (f db_query (sp_negated token)) rest)"

fun apply_sort_tokens ::
  "('e, 'k) search_config \<Rightarrow> ('e, 'k) query \<Rightarrow> sort_token list \<Rightarrow> error + ('e, 'k) query" where
  "apply_sort_tokens cfg db_query [] = Inr db_query"
| "apply_sort_tokens cfg db_query (token # rest) =
     (case map_of (sort_columns cfg) (st_name token) of
        None \<Rightarrow>
          Inl (SearchError
            (UnknownSortToken (st_name token) (format_dict_keys (sort_columns cfg))))
      | Some (column, default_direction) \<Rightarrow>
          (case get_direction (st_direction token) default_direction of
             Inl e \<Rightarrow> Inl e
           | Inr direction \<Rightarrow>
               if direction = SORT_ASC then
                 apply_sort_tokens cfg (query_order_by (column_asc column) db_query) rest
               else if direction = SORT_DESC then
                 apply_sort_tokens cfg (query_order_by (column_desc column) db_query) rest
               else apply_sort_tokens cfg db_query rest))"

definition prepare_db_query ::
  "('e, 'k) search_config \<Rightarrow> ('e, 'k) query \<Rightarrow> search_query \<Rightarrow> bool \<Rightarrow> error + ('e, 'k) query" where
  "prepare_db_query cfg db_query search_query use_sort =
     (case apply_anonymous_tokens cfg db_query (anonymous_tokens search_query) of
        Inl e \<Rightarrow> Inl e
      | Inr q1 \<Rightarrow>
     (case apply_named_tokens cfg q1 (named_tokens search_query) of
        Inl e \<Rightarrow> Inl e
      | Inr q2 \<Rightarrow>
     (case apply_special_tokens cfg q2 (special_tokens search_query) of
        Inl e \<Rightarrow> Inl e
      | Inr q3 \<Rightarrow>
     (case (if use_sort then apply_sort_tokens cfg q3 (sort_tokens search_query) else Inr q3) of
        Inl e \<Rightarrow> Inl e
      | Inr q4 \<Rightarrow> Inr (finalize_query cfg q4)))))"

subsection \<open>Executor.execute\<close>

text \<open>
  \<^verbatim>\<open>execute(self, query_text, page, page_size)\<close> in state-passing style: the result
  is the returned pair \<^verbatim>\<open>(count, entities)\<close> or the exception raised, with the
  state of the world afterwards.
\<close>

definition cache_key_of :: "('e, 'k) executor \<Rightarrow> string \<Rightarrow> int \<Rightarrow> int \<Rightarrow> cache_key" where
  "cache_key_of self query_text page page_size =
     (py_id (config self), query_text, page, page_size)"

definition execute ::
  "('e, 'k::linorder) executor \<Rightarrow> string \<Rightarrow> int \<Rightarrow> int \<Rightarrow> 'e world
     \<Rightarrow> (error + 'e search_result) \<times> 'e world" where
  "execute self query_text page page_size w =
     (let key = cache_key_of self query_text page page_size in
      if cache_has (cache w) key then (cache_get (cache w) key, w)
      else
        let search_query = parser self query_text;
            w1 = emit (EvParse query_text) w;
            filter_query = create_filter_query (config self);
            filter_query = query_options LazyLoadAll filter_query
        in
        case prepare_db_query (config self) filter_query search_query True of
          Inl e \<Rightarrow> (Inl e, w1)
        | Inr filter_query \<Rightarrow>
            let w2 = emit EvQueryAll w1 in
            (case query_all (dataset w2)
                    (query_limit page_size
                      (query_offset ((page - 1) * page_size) filter_query)) of
               Inl e \<Rightarrow> (Inl e, w2)
             | Inr entities \<Rightarrow>
                 let count_query = create_count_query (config self);
                     count_query = query_options LazyLoadAll count_query
                 in
                 (case prepare_db_query (config self) count_query search_query False of
                    Inl e \<Rightarrow> (Inl e, w2)
                  | Inr count_query \<Rightarrow>
                      let count_statement =
                            order_by_none
                              (with_only_columns_count (query_statement count_query));
                          w3 = emit EvQueryScalar w2
                      in
                      (case session_execute_scalar (dataset w3) count_statement of
                         Inl e \<Rightarrow> (Inl e, w3)
                       | Inr count \<Rightarrow>
                           let ret = (count, entities);
                               w4 = emit (EvCachePut key) w3
                           in (Inr ret, w4\<lparr>cache := cache_put (cache w4) key ret\<rparr>)))))"

subsection \<open>Which queries resolve against a configuration\<close>

text \<open>
  The conditions of the specification under which a parsed query is accepted: an
  anonymous token needs the anonymous handler, a named token a key of
  \<open>named_filters\<close>, a special token a key of \<open>special_filters\<close>, a sort token a key
  of \<open>sort_columns\<close>. A configuration is well formed when the default direction of
  every sortable column is ascending or descending.
\<close>

definition filters_resolve :: "('e, 'k) search_config \<Rightarrow> search_query \<Rightarrow> bool" where
  "filters_resolve cfg sq =
     ((anonymous_tokens sq = [] \<or> anonymous_filter cfg \<noteq> None)
      \<and> (\<forall>t \<in> set (named_tokens sq). nt_name t \<in> set (dict_keys (named_filters cfg)))
      \<and> (\<forall>t \<in> set (special_tokens sq). sp_value t \<in> set (dict_keys (special_filters cfg))))"

definition sorts_resolve :: "('e, 'k) search_config \<Rightarrow> search_query \<Rightarrow> bool" where
  "sorts_resolve cfg sq =
     (\<forall>t \<in> set (sort_tokens sq). st_name t \<in> set (dict_keys (sort_columns cfg)))"

definition resolves :: "('e, 'k) search_config \<Rightarrow> search_query \<Rightarrow> bool" where
  "resolves cfg sq = (filters_resolve cfg sq \<and> sorts_resolve cfg sq)"

definition default_directions_ok :: "('e, 'k) search_config \<Rightarrow> bool" where
  "default_directions_ok cfg =
     (\<forall>entry \<in> set (sort_columns cfg).
        snd (snd entry) = SORT_ASC \<or> snd (snd entry) = SORT_DESC)"







text \<open>
  The cache is sound for an executor when every entry under one of its keys belongs
  to a query text that resolves against its configuration.
\<close>

definition cache_sound :: "('e, 'k) executor \<Rightarrow> 'e world \<Rightarrow> bool" where
  "cache_sound self w =
     (\<forall>t p ps. cache_has (cache w) (cache_key_of self t p ps)
        \<longrightarrow> resolves (config self) (parser self t))"

text \<open>
  The cache is bounded when every entry holds at most as many entities as the page
  size of its key.
\<close>

definition cache_pages_bounded :: "'e world \<Rightarrow> bool" where
  "cache_pages_bounded w =
     (\<forall>i t p ps c es. cache w (i, t, p, ps) = Some (c, es) \<longrightarrow> length es \<le> nat ps)"

text \<open>
  What the specification says of a sort token: its direction is resolved against the
  default direction of its column (Default is the default, NegatedDefault its
  opposite, an explicit direction is itself), and the token orders by its column in
  the resolved direction.
\<close>

definition spec_direction :: "sort_direction \<Rightarrow> sort_direction \<Rightarrow> sort_direction" where
  "spec_direction direction default_direction =
     (case direction of
        SORT_DEFAULT \<Rightarrow> default_direction
      | SORT_NEGATED_DEFAULT \<Rightarrow> (if default_direction = SORT_ASC then SORT_DESC else SORT_ASC)
      | _ \<Rightarrow> direction)"

definition sort_clause :: "('e, 'k) search_config \<Rightarrow> sort_token \<Rightarrow> ('e, 'k) order_clause" where
  "sort_clause cfg token =
     (case map_of (sort_columns cfg) (st_name token) of
        Some (column, default_direction) \<Rightarrow>
          if spec_direction (st_direction token) default_direction = SORT_ASC
          then Asc column else Desc column)"

subsection \<open>A parser and a search domain to run the executor on\<close>

text \<open>
  Modelled from the spec: the module \<^verbatim>\<open>szurubooru.search.parser\<close> is not part of the
  sources at hand, and the executor takes its parser as a field. The parser below
  follows the minimal grammar of the specification: the text is split at white space
  into terms; a leading \<^verbatim>\<open>-\<close> negates a term; a term \<^verbatim>\<open>name:value\<close> is a sort
  token when the name is \<^verbatim>\<open>sort\<close>, a special token when it is \<^verbatim>\<open>special\<close>, and a
  named token otherwise; any other term is an anonymous token. The specification
  leaves the syntax of a direction suffix open, so the value of a sort token is read
  as a column name without suffix, which has the direction Default.
\<close>

definition is_whitespace :: "char \<Rightarrow> bool" where
  "is_whitespace c = (c = CHR '' '' \<or> c = CHR 0x09 \<or> c = CHR 0x0A \<or> c = CHR 0x0D)"

fun split_terms :: "string \<Rightarrow> string \<Rightarrow> string list" where
  "split_terms cur [] = (if cur = [] then [] else [cur])"
| "split_terms cur (c # cs) =
     (if is_whitespace c then (if cur = [] then split_terms [] cs else cur # split_terms [] cs)
      else split_terms (cur @ [c]) cs)"

definition empty_search_query :: search_query where
  "empty_search_query =
     \<lparr>anonymous_tokens = [], named_tokens = [], special_tokens = [], sort_tokens = []\<rparr>"

definition parse_term :: "search_query \<Rightarrow> string \<Rightarrow> search_query" where
  "parse_term sq term =
     (let (negated, body) =
            (case term of
               [] \<Rightarrow> (False, term)
             | c # cs \<Rightarrow> if c = CHR ''-'' then (True, cs) else (False, term));
          name = takeWhile (\<lambda>c. c \<noteq> CHR '':'') body;
          rest = dropWhile (\<lambda>c. c \<noteq> CHR '':'') body
      in case rest of
           [] \<Rightarrow>
             sq\<lparr>anonymous_tokens := anonymous_tokens sq
                   @ [\<lparr>at_criterion = body, at_negated = negated\<rparr>]\<rparr>
         | colon # val \<Rightarrow>
             if name = ''sort'' then
               sq\<lparr>sort_tokens := sort_tokens sq
                     @ [\<lparr>st_name = val, st_direction = SORT_DEFAULT, st_negated = negated\<rparr>]\<rparr>
             else if name = ''special'' then
               sq\<lparr>special_tokens := special_tokens sq
                     @ [\<lparr>sp_value = val, sp_negated = negated\<rparr>]\<rparr>
             else
               sq\<lparr>named_tokens := named_tokens sq
                     @ [\<lparr>nt_name = name, nt_criterion = val, nt_negated = negated\<rparr>]\<rparr>)"

definition spec_parse :: "string \<Rightarrow> search_query" where
  "spec_parse text = foldl parse_term empty_search_query (split_terms [] text)"

text \<open>
  A search domain for concrete runs: entries with a name, a date, a user and a tag,
  all strings. \<open>entry_config\<close> has an anonymous handler (on the name), the named
  filters \<^verbatim>\<open>user\<close> and \<^verbatim>\<open>tag\<close>, inserted in that order, the special filter
  \<^verbatim>\<open>dated\<close>, and the sortable columns \<^verbatim>\<open>name\<close> (default ascending) and \<^verbatim>\<open>date\<close>
  (default descending). \<open>strict_config\<close> is a second instance that differs in having
  no anonymous handler; \<open>entry_config_copy\<close> is a second instance with the contents
  of \<open>entry_config\<close>.
\<close>

record entry =
  e_name :: string
  e_date :: string
  e_user :: string
  e_tag :: string

definition empty_query :: "('e, 'k) query" where
  "empty_query =
     \<lparr>where_clauses = [], order_clauses = [], loader_options = [],
      offset_value = None, limit_value = None\<rparr>"

definition entry_config :: "(entry, string) search_config" where
  "entry_config =
     \<lparr>obj_id = 1,
      anonymous_filter =
        Some (\<lambda>q criterion negated. query_filter (\<lambda>e. (e_name e = criterion) \<noteq> negated) q),
      named_filters =
        [(''user'', \<lambda>q criterion negated. query_filter (\<lambda>e. (e_user e = criterion) \<noteq> negated) q),
         (''tag'', \<lambda>q criterion negated. query_filter (\<lambda>e. (e_tag e = criterion) \<noteq> negated) q)],
      special_filters =
        [(''dated'', \<lambda>q negated. query_filter (\<lambda>e. (e_date e \<noteq> []) \<noteq> negated) q)],
      sort_columns = [(''name'', (e_name, SORT_ASC)), (''date'', (e_date, SORT_DESC))],
      finalize_query = (\<lambda>q. q),
      create_filter_query = empty_query,
      create_count_query = empty_query\<rparr>"

definition strict_config :: "(entry, string) search_config" where
  "strict_config = entry_config\<lparr>obj_id := 2, anonymous_filter := None\<rparr>"

definition entry_config_copy :: "(entry, string) search_config" where
  "entry_config_copy = entry_config\<lparr>obj_id := 3\<rparr>"

definition entries :: "entry list" where
  "entries =
     [\<lparr>e_name = ''cat'', e_date = ''2016-04-02'', e_user = ''bob'', e_tag = ''pet''\<rparr>,
      \<lparr>e_name = ''ant'', e_date = ''2016-04-01'', e_user = ''amy'', e_tag = ''bug''\<rparr>,
      \<lparr>e_name = ''cat'', e_date = ''2016-04-03'', e_user = ''amy'', e_tag = ''pet''\<rparr>,
      \<lparr>e_name = ''bee'', e_date = ''2016-04-01'', e_user = ''bob'', e_tag = ''bug''\<rparr>]"

definition fresh_world :: "'e list \<Rightarrow> 'e world" where
  "fresh_world rows = \<lparr>cache = Map.empty, dataset = rows, trace = []\<rparr>"

definition entry_executor :: "(entry, string) executor" where
  "entry_executor = \<lparr>config = entry_config, parser = spec_parse\<rparr>"

definition strict_executor :: "(entry, string) executor" where
  "strict_executor = \<lparr>config = strict_config, parser = spec_parse\<rparr>"

text \<open>A domain without filters over numbered entities, for runs on large tables.\<close>

definition number_config :: "(nat, nat) search_config" where
  "number_config =
     \<lparr>obj_id = 4, anonymous_filter = None, named_filters = [], special_filters = [],
      sort_columns = [], finalize_query = (\<lambda>q. q),
      create_filter_query = empty_query, create_count_query = empty_query\<rparr>"

definition number_executor :: "(nat, nat) executor" where
  "number_executor = \<lparr>config = number_config, parser = spec_parse\<rparr>"

section \<open>Sort-direction resolution\<close>

text \<open>
  Claim C5. For a column whose configured default is ascending, the direction
  Default resolves to ascending and NegatedDefault to descending; for a configured
  default of descending, Default resolves to descending and NegatedDefault to
  ascending; an explicit ascending or descending direction resolves to itself
  whatever the configured default is.
\<close>

theorem get_direction_resolution:
  "get_direction SORT_DEFAULT SORT_ASC = Inr SORT_ASC
   \<and> get_direction SORT_NEGATED_DEFAULT SORT_ASC = Inr SORT_DESC
   \<and> get_direction SORT_DEFAULT SORT_DESC = Inr SORT_DESC
   \<and> get_direction SORT_NEGATED_DEFAULT SORT_DESC = Inr SORT_ASC
   \<and> get_direction SORT_ASC default_direction = Inr SORT_ASC
   \<and> get_direction SORT_DESC default_direction = Inr SORT_DESC"
  by (simp add: get_direction_def)

text \<open>
  Claim C6. Resolution is total: when the configured default direction is ascending
  or descending, every one of the four directions resolves to exactly ascending or
  descending, and the failing assertion is not reached.
\<close>

theorem get_direction_total:
  assumes "default_direction = SORT_ASC \<or> default_direction = SORT_DESC"
  shows "get_direction direction default_direction = Inr SORT_ASC
         \<or> get_direction direction default_direction = Inr SORT_DESC"
  using assms by (cases direction) (auto simp: get_direction_def)

theorem get_direction_total_witness:
  "(SORT_DESC = SORT_ASC \<or> SORT_DESC = SORT_DESC)
   \<and> get_direction SORT_NEGATED_DEFAULT SORT_DESC = Inr SORT_ASC
   \<and> get_direction SORT_NEGATED_DEFAULT SORT_DESC \<noteq> Inl AssertionError"
  using get_direction_total [of SORT_DESC SORT_NEGATED_DEFAULT]
  by (simp add: get_direction_def)

section \<open>Validation of the tokens\<close>

lemma map_of_None_keys: "map_of d k = None \<longleftrightarrow> k \<notin> set (dict_keys d)"
  by (simp add: dict_keys_def map_of_eq_None_iff)

lemma keys_iff: "k \<in> set (dict_keys d) \<longleftrightarrow> map_of d k \<noteq> None"
  by (simp add: dict_keys_def map_of_eq_None_iff)

lemma anonymous_ok_iff:
  "(\<exists>q'. apply_anonymous_tokens cfg q ts = Inr q') \<longleftrightarrow> (ts = [] \<or> anonymous_filter cfg \<noteq> None)"
  by (induction ts arbitrary: q) (auto split: option.splits)

lemma anonymous_error:
  "apply_anonymous_tokens cfg q ts = Inl e \<Longrightarrow> e = SearchError AnonymousNotValid"
  by (induction ts arbitrary: q) (auto split: option.splits)

lemma named_ok_iff:
  "(\<exists>q'. apply_named_tokens cfg q ts = Inr q')
     \<longleftrightarrow> (\<forall>t \<in> set ts. nt_name t \<in> set (dict_keys (named_filters cfg)))"
  by (induction ts arbitrary: q) (auto simp: keys_iff split: option.splits)

lemma named_error:
  "apply_named_tokens cfg q ts = Inl e \<Longrightarrow>
     \<exists>t \<in> set ts. nt_name t \<notin> set (dict_keys (named_filters cfg)) \<and>
       e = SearchError (UnknownNamedToken (nt_name t) (format_dict_keys (named_filters cfg)))"
  by (induction ts arbitrary: q) (auto simp: keys_iff split: option.splits)

lemma special_ok_iff:
  "(\<exists>q'. apply_special_tokens cfg q ts = Inr q')
     \<longleftrightarrow> (\<forall>t \<in> set ts. sp_value t \<in> set (dict_keys (special_filters cfg)))"
  by (induction ts arbitrary: q) (auto simp: keys_iff split: option.splits)

lemma special_error:
  "apply_special_tokens cfg q ts = Inl e \<Longrightarrow>
     \<exists>t \<in> set ts. sp_value t \<notin> set (dict_keys (special_filters cfg)) \<and>
       e = SearchError (UnknownSpecialToken (sp_value t) (format_dict_keys (special_filters cfg)))"
  by (induction ts arbitrary: q) (auto simp: keys_iff split: option.splits)

lemma sort_error:
  "apply_sort_tokens cfg q ts = Inl e \<Longrightarrow>
     e = AssertionError \<or>
     (\<exists>t \<in> set ts. st_name t \<notin> set (dict_keys (sort_columns cfg)) \<and>
       e = SearchError (UnknownSortToken (st_name t) (format_dict_keys (sort_columns cfg))))"
proof (induction ts arbitrary: q)
  case Nil
  then show ?case by simp
next
  case (Cons t ts)
  show ?case
  proof (cases "map_of (sort_columns cfg) (st_name t)")
    case None
    with Cons.prems show ?thesis by (simp add: keys_iff)
  next
    case (Some cd)
    obtain c dd where cd: "cd = (c, dd)" by (cases cd)
    show ?thesis
    proof (cases "get_direction (st_direction t) dd")
      case (Inl e')
      with Cons.prems Some cd have "e = e'" by simp
      moreover from Inl have "e' = AssertionError"
        by (auto simp: get_direction_def split: if_splits)
      ultimately show ?thesis by simp
    next
      case (Inr r)
      with Cons.prems Some cd obtain q2 where "apply_sort_tokens cfg q2 ts = Inl e"
        by (auto split: if_splits)
      from Cons.IH[OF this] show ?thesis by auto
    qed
  qed
qed

lemma sort_ok_imp:
  "apply_sort_tokens cfg q ts = Inr q' \<Longrightarrow>
     \<forall>t \<in> set ts. st_name t \<in> set (dict_keys (sort_columns cfg))"
  by (induction ts arbitrary: q)
     (auto simp: keys_iff split: option.splits sum.splits if_splits)

lemma get_direction_ok:
  "dd = SORT_ASC \<or> dd = SORT_DESC \<Longrightarrow> \<exists>r. get_direction d dd = Inr r \<and> (r = SORT_ASC \<or> r = SORT_DESC)"
  by (cases d) (auto simp: get_direction_def)

lemma sort_ok_iff:
  assumes "default_directions_ok cfg"
  shows "(\<exists>q'. apply_sort_tokens cfg q ts = Inr q')
     \<longleftrightarrow> (\<forall>t \<in> set ts. st_name t \<in> set (dict_keys (sort_columns cfg)))"
proof (induction ts arbitrary: q)
  case Nil
  then show ?case by simp
next
  case (Cons t ts)
  show ?case
  proof (cases "map_of (sort_columns cfg) (st_name t)")
    case None
    then show ?thesis by (simp add: keys_iff)
  next
    case (Some cd)
    obtain c dd where cd: "cd = (c, dd)" by (cases cd)
    from Some cd have "(st_name t, c, dd) \<in> set (sort_columns cfg)"
      by (auto dest: map_of_SomeD)
    with assms have "dd = SORT_ASC \<or> dd = SORT_DESC"
      by (auto simp: default_directions_ok_def)
    from get_direction_ok[OF this, of "st_direction t"]
    obtain r where r: "get_direction (st_direction t) dd = Inr r" "r = SORT_ASC \<or> r = SORT_DESC"
      by blast
    have known: "st_name t \<in> set (dict_keys (sort_columns cfg))"
      using Some by (simp add: keys_iff)
    show ?thesis
      using Some cd r known Cons.IH by auto
  qed
qed


lemma sort_no_assertion:
  assumes "default_directions_ok cfg"
  shows "apply_sort_tokens cfg q ts \<noteq> Inl AssertionError"
proof
  assume a: "apply_sort_tokens cfg q ts = Inl AssertionError"
  have "\<not> (\<exists>q'. apply_sort_tokens cfg q ts = Inr q')" using a by simp
  then obtain t where "t \<in> set ts" "st_name t \<notin> set (dict_keys (sort_columns cfg))"
    using sort_ok_iff[OF assms] by blast
  have "\<And>q. apply_sort_tokens cfg q ts \<noteq> Inl AssertionError"
  proof (induction ts)
    case Nil
    then show ?case by simp
  next
    case (Cons t ts)
    show ?case
    proof (cases "map_of (sort_columns cfg) (st_name t)")
      case None
      then show ?thesis by simp
    next
      case (Some cd)
      obtain c dd where cd: "cd = (c, dd)" by (cases cd)
      from Some cd have "(st_name t, c, dd) \<in> set (sort_columns cfg)"
        by (auto dest: map_of_SomeD)
      with assms have "dd = SORT_ASC \<or> dd = SORT_DESC"
        by (auto simp: default_directions_ok_def)
      from get_direction_ok[OF this, of "st_direction t"]
      obtain r where r: "get_direction (st_direction t) dd = Inr r" "r = SORT_ASC \<or> r = SORT_DESC"
        by blast
      show ?thesis using Some cd r Cons.IH by auto
    qed
  qed
  with a show False by blast
qed

lemma prepare_filters_ok_iff:
  "(\<exists>q'. prepare_db_query cfg q sq False = Inr q') \<longleftrightarrow> filters_resolve cfg sq"
proof
  assume "\<exists>q'. prepare_db_query cfg q sq False = Inr q'"
  then obtain q1 q2 q3 where
    "apply_anonymous_tokens cfg q (anonymous_tokens sq) = Inr q1"
    "apply_named_tokens cfg q1 (named_tokens sq) = Inr q2"
    "apply_special_tokens cfg q2 (special_tokens sq) = Inr q3"
    by (auto simp: prepare_db_query_def split: sum.splits)
  then show "filters_resolve cfg sq"
    unfolding filters_resolve_def
    using anonymous_ok_iff[of cfg q "anonymous_tokens sq"]
      named_ok_iff[of cfg q1 "named_tokens sq"]
      special_ok_iff[of cfg q2 "special_tokens sq"] by blast
next
  assume r: "filters_resolve cfg sq"
  then obtain q1 where q1: "apply_anonymous_tokens cfg q (anonymous_tokens sq) = Inr q1"
    unfolding filters_resolve_def using anonymous_ok_iff[of cfg q "anonymous_tokens sq"] by blast
  from r obtain q2 where q2: "apply_named_tokens cfg q1 (named_tokens sq) = Inr q2"
    unfolding filters_resolve_def using named_ok_iff[of cfg q1 "named_tokens sq"] by blast
  from r obtain q3 where q3: "apply_special_tokens cfg q2 (special_tokens sq) = Inr q3"
    unfolding filters_resolve_def using special_ok_iff[of cfg q2 "special_tokens sq"] by blast
  show "\<exists>q'. prepare_db_query cfg q sq False = Inr q'"
    by (simp add: prepare_db_query_def q1 q2 q3)
qed

lemma prepare_sorted_ok_imp:
  assumes "prepare_db_query cfg q sq True = Inr q'"
  shows "resolves cfg sq"
proof -
  from assms obtain q1 q2 q3 q4 where
    "apply_anonymous_tokens cfg q (anonymous_tokens sq) = Inr q1"
    "apply_named_tokens cfg q1 (named_tokens sq) = Inr q2"
    "apply_special_tokens cfg q2 (special_tokens sq) = Inr q3"
    "apply_sort_tokens cfg q3 (sort_tokens sq) = Inr q4"
    by (auto simp: prepare_db_query_def split: sum.splits)
  then show ?thesis
    unfolding resolves_def filters_resolve_def sorts_resolve_def
    using anonymous_ok_iff[of cfg q "anonymous_tokens sq"]
      named_ok_iff[of cfg q1 "named_tokens sq"]
      special_ok_iff[of cfg q2 "special_tokens sq"]
      sort_ok_imp[of cfg q3 "sort_tokens sq" q4] by blast
qed

lemma prepare_sorted_ok:
  assumes wf: "default_directions_ok cfg" and r: "resolves cfg sq"
  shows "\<exists>q'. prepare_db_query cfg q sq True = Inr q'"
proof -
  from r have f: "filters_resolve cfg sq" and s: "sorts_resolve cfg sq"
    by (simp_all add: resolves_def)
  from f obtain q1 where q1: "apply_anonymous_tokens cfg q (anonymous_tokens sq) = Inr q1"
    unfolding filters_resolve_def using anonymous_ok_iff[of cfg q "anonymous_tokens sq"] by blast
  from f obtain q2 where q2: "apply_named_tokens cfg q1 (named_tokens sq) = Inr q2"
    unfolding filters_resolve_def using named_ok_iff[of cfg q1 "named_tokens sq"] by blast
  from f obtain q3 where q3: "apply_special_tokens cfg q2 (special_tokens sq) = Inr q3"
    unfolding filters_resolve_def using special_ok_iff[of cfg q2 "special_tokens sq"] by blast
  from s obtain q4 where q4: "apply_sort_tokens cfg q3 (sort_tokens sq) = Inr q4"
    unfolding sorts_resolve_def using sort_ok_iff[OF wf, of q3 "sort_tokens sq"] by blast
  show ?thesis by (simp add: prepare_db_query_def q1 q2 q3 q4)
qed

lemma prepare_error_kind:
  assumes "prepare_db_query cfg q sq use_sort = Inl e"
  shows "e = AssertionError \<or> (\<exists>m. e = SearchError m)"
  using assms
  by (auto simp: prepare_db_query_def split: sum.splits if_splits
      dest: anonymous_error named_error special_error sort_error)

lemma sort_error_search:
  assumes wf: "default_directions_ok cfg" and e: "apply_sort_tokens cfg q ts = Inl e"
  shows "\<exists>m. e = SearchError m"
proof -
  from sort_no_assertion[OF wf, of q ts] e have "e \<noteq> AssertionError" by auto
  with sort_error[OF e] show ?thesis by blast
qed

lemma prepare_error_search:
  assumes wf: "default_directions_ok cfg" and "prepare_db_query cfg q sq use_sort = Inl e"
  shows "\<exists>m. e = SearchError m"
  using assms(2)
  by (auto simp: prepare_db_query_def split: sum.splits if_splits
      dest: anonymous_error named_error special_error sort_error_search[OF wf])

lemma prepare_filters_error_search:
  assumes "prepare_db_query cfg q sq False = Inl e"
  shows "\<exists>m. e = SearchError m"
  using assms
  by (auto simp: prepare_db_query_def split: sum.splits if_splits
      dest: anonymous_error named_error special_error)

section \<open>The paths through execute\<close>

lemma window_error: "window off lim rows = Inl e \<Longrightarrow> e = DatabaseError"
  by (auto simp: window_def split: if_splits)

lemma query_all_error: "query_all rows q = Inl e \<Longrightarrow> e = DatabaseError"
  by (auto simp: query_all_def dest: window_error)

lemma session_execute_scalar_error: "session_execute_scalar rows s = Inl e \<Longrightarrow> e = DatabaseError"
  by (auto simp: session_execute_scalar_def split: sum.splits list.splits dest: window_error)

lemma execute_hit:
  assumes "cache w (cache_key_of self t p ps) = Some v"
  shows "execute self t p ps w = (Inr v, w)"
  using assms by (simp add: execute_def cache_has_def cache_get_def Let_def)

lemma execute_miss_rejected:
  assumes "cache w (cache_key_of self t p ps) = None"
    and "prepare_db_query (config self) (query_options LazyLoadAll (create_filter_query (config self)))
           (parser self t) True = Inl e"
  shows "execute self t p ps w = (Inl e, emit (EvParse t) w)"
  using assms by (simp add: execute_def cache_has_def Let_def)

lemma count_query_accepted:
  assumes "prepare_db_query cfg fq0 sq True = Inr fq"
  shows "\<exists>cq. prepare_db_query cfg cq0 sq False = Inr cq"
proof -
  from prepare_sorted_ok_imp[OF assms] have "filters_resolve cfg sq"
    by (simp add: resolves_def)
  then show ?thesis using prepare_filters_ok_iff by blast
qed

lemma execute_miss_accepted:
  assumes miss: "cache w (cache_key_of self t p ps) = None"
    and ok: "prepare_db_query (config self) (query_options LazyLoadAll (create_filter_query (config self)))
           (parser self t) True = Inr fq"
    and cq: "prepare_db_query (config self) (query_options LazyLoadAll (create_count_query (config self)))
           (parser self t) False = Inr cq"
  shows "execute self t p ps w =
           (case query_all (dataset w) (query_limit ps (query_offset ((p - 1) * ps) fq)) of
              Inl e \<Rightarrow> (Inl e, emit EvQueryAll (emit (EvParse t) w))
            | Inr entities \<Rightarrow>
               (case session_execute_scalar (dataset w)
                       (order_by_none (with_only_columns_count (query_statement cq))) of
                  Inl e \<Rightarrow> (Inl e, emit EvQueryScalar (emit EvQueryAll (emit (EvParse t) w)))
                | Inr count \<Rightarrow>
                   (Inr (count, entities),
                    w\<lparr>trace := trace w @ [EvParse t, EvQueryAll, EvQueryScalar,
                                            EvCachePut (cache_key_of self t p ps)],
                      cache := (cache w)(cache_key_of self t p ps \<mapsto> (count, entities))\<rparr>)))"
  using miss ok cq
  by (auto simp: execute_def cache_has_def Let_def emit_def cache_put_def split: sum.splits)

lemma execute_search_error_miss:
  assumes "fst (execute self t p ps w) = Inl (SearchError m)"
  shows "cache w (cache_key_of self t p ps) = None
     \<and> prepare_db_query (config self) (query_options LazyLoadAll (create_filter_query (config self)))
           (parser self t) True = Inl (SearchError m)"
proof (cases "cache w (cache_key_of self t p ps)")
  case (Some v)
  from execute_hit[OF Some] assms show ?thesis by simp
next
  case None
  show ?thesis
  proof (cases "prepare_db_query (config self)
      (query_options LazyLoadAll (create_filter_query (config self))) (parser self t) True")
    case (Inl e)
    from execute_miss_rejected[OF None Inl] assms None Inl show ?thesis by simp
  next
    case (Inr fq)
    from count_query_accepted[OF Inr] obtain cq where
      cq: "prepare_db_query (config self)
        (query_options LazyLoadAll (create_count_query (config self))) (parser self t) False = Inr cq"
      by blast
    have "fst (execute self t p ps w) \<noteq> Inl (SearchError m)"
      unfolding execute_miss_accepted[OF None Inr cq]
      by (auto split: sum.splits dest: query_all_error session_execute_scalar_error)
    with assms show ?thesis by simp
  qed
qed

lemma execute_cases:
  obtains (hit) v where "cache w (cache_key_of self t p ps) = Some v"
      "execute self t p ps w = (Inr v, w)"
  | (rejected) e where "cache w (cache_key_of self t p ps) = None"
      "execute self t p ps w = (Inl e, emit (EvParse t) w)"
      "prepare_db_query (config self) (query_options LazyLoadAll (create_filter_query (config self)))
           (parser self t) True = Inl e"
  | (row_failure) fq where "cache w (cache_key_of self t p ps) = None"
      "prepare_db_query (config self) (query_options LazyLoadAll (create_filter_query (config self)))
           (parser self t) True = Inr fq"
      "execute self t p ps w = (Inl DatabaseError, emit EvQueryAll (emit (EvParse t) w))"
  | (count_failure) fq where "cache w (cache_key_of self t p ps) = None"
      "prepare_db_query (config self) (query_options LazyLoadAll (create_filter_query (config self)))
           (parser self t) True = Inr fq"
      "execute self t p ps w =
         (Inl DatabaseError, emit EvQueryScalar (emit EvQueryAll (emit (EvParse t) w)))"
  | (computed) fq cq entities count where "cache w (cache_key_of self t p ps) = None"
      "prepare_db_query (config self) (query_options LazyLoadAll (create_filter_query (config self)))
           (parser self t) True = Inr fq"
      "prepare_db_query (config self) (query_options LazyLoadAll (create_count_query (config self)))
           (parser self t) False = Inr cq"
      "query_all (dataset w) (query_limit ps (query_offset ((p - 1) * ps) fq)) = Inr entities"
      "session_execute_scalar (dataset w)
         (order_by_none (with_only_columns_count (query_statement cq))) = Inr count"
      "execute self t p ps w =
         (Inr (count, entities),
          w\<lparr>trace := trace w @ [EvParse t, EvQueryAll, EvQueryScalar,
                                  EvCachePut (cache_key_of self t p ps)],
            cache := (cache w)(cache_key_of self t p ps \<mapsto> (count, entities))\<rparr>)"
proof (cases "cache w (cache_key_of self t p ps)")
  case (Some v)
  from hit[OF Some execute_hit[OF Some]] show ?thesis .
next
  case None
  show ?thesis
  proof (cases "prepare_db_query (config self)
      (query_options LazyLoadAll (create_filter_query (config self))) (parser self t) True")
    case (Inl e)
    from rejected[OF None execute_miss_rejected[OF None Inl] Inl] show ?thesis .
  next
    case (Inr fq)
    from count_query_accepted[OF Inr] obtain cq where
      cq: "prepare_db_query (config self)
        (query_options LazyLoadAll (create_count_query (config self))) (parser self t) False = Inr cq"
      by blast
    note ex = execute_miss_accepted[OF None Inr cq]
    show ?thesis
    proof (cases "query_all (dataset w) (query_limit ps (query_offset ((p - 1) * ps) fq))")
      case (Inl e)
      with query_all_error[OF Inl] ex row_failure[OF None Inr] show ?thesis by simp
    next
      case rows: (Inr entities)
      show ?thesis
      proof (cases "session_execute_scalar (dataset w)
         (order_by_none (with_only_columns_count (query_statement cq)))")
        case (Inl e)
        with session_execute_scalar_error[OF Inl] ex rows count_failure[OF None Inr]
        show ?thesis by simp
      next
        case (Inr count)
        with ex rows have "execute self t p ps w =
         (Inr (count, entities),
          w\<lparr>trace := trace w @ [EvParse t, EvQueryAll, EvQueryScalar,
                                  EvCachePut (cache_key_of self t p ps)],
            cache := (cache w)(cache_key_of self t p ps \<mapsto> (count, entities))\<rparr>)" by simp
        from computed[OF None \<open>prepare_db_query (config self)
      (query_options LazyLoadAll (create_filter_query (config self))) (parser self t) True = Inr fq\<close>
          cq rows Inr this] show ?thesis .
      qed
    qed
  qed
qed

lemma cache_key_of_text:
  "cache_key_of self t p ps = cache_key_of self t' p' ps' \<Longrightarrow> t = t'"
  by (simp add: cache_key_of_def)

lemma execute_keeps_cache_sound:
  assumes "cache_sound self w"
  shows "cache_sound self (snd (execute self t p ps w))"
proof (cases rule: execute_cases[of w self t p ps])
  case (hit v)
  with assms show ?thesis by simp
next
  case (rejected e)
  with assms show ?thesis by (simp add: cache_sound_def emit_def)
next
  case (row_failure fq)
  with assms show ?thesis by (simp add: cache_sound_def emit_def)
next
  case (count_failure fq)
  with assms show ?thesis by (simp add: cache_sound_def emit_def)
next
  case (computed fq cq entities count)
  from prepare_sorted_ok_imp[OF computed(2)] have r: "resolves (config self) (parser self t)" .
  show ?thesis
    unfolding cache_sound_def
  proof (intro allI impI)
    fix t' p' ps'
    assume h: "cache_has (cache (snd (execute self t p ps w))) (cache_key_of self t' p' ps')"
    show "resolves (config self) (parser self t')"
    proof (cases "cache_key_of self t' p' ps' = cache_key_of self t p ps")
      case True
      from cache_key_of_text[OF True] r show ?thesis by simp
    next
      case False
      with h computed(6) have "cache_has (cache w) (cache_key_of self t' p' ps')"
        by (simp add: cache_has_def)
      with assms show ?thesis unfolding cache_sound_def by blast
    qed
  qed
qed

lemma fresh_world_cache_sound: "cache_sound self (fresh_world rows)"
  by (simp add: cache_sound_def cache_has_def fresh_world_def)

lemma window_page:
  assumes "0 \<le> off" "0 \<le> lim"
  shows "window (Some off) (Some lim) rows = Inr (take (nat lim) (drop (nat off) rows))"
  using assms by (simp add: window_def negative_def skip_rows_def first_rows_def)

lemma window_Some_length:
  "window off (Some lim) rows = Inr page \<Longrightarrow> length page \<le> nat lim"
  by (auto simp: window_def first_rows_def split: if_splits)

lemma query_all_page:
  assumes "1 \<le> page" "1 \<le> page_size"
  shows "query_all rows (query_limit page_size (query_offset ((page - 1) * page_size) fq))
     = Inr (take (nat page_size) (drop (nat ((page - 1) * page_size))
              (sort_rows (order_clauses fq) (matching_rows (where_clauses fq) rows))))"
proof -
  from assms have "0 \<le> (page - 1) * page_size" "0 \<le> page_size" by simp_all
  from window_page[OF this] show ?thesis
    by (simp add: query_all_def query_limit_def query_offset_def)
qed

lemma query_all_length:
  "query_all rows (query_limit page_size q) = Inr page \<Longrightarrow> length page \<le> nat page_size"
  by (auto simp: query_all_def query_limit_def dest: window_Some_length)

lemma execute_keeps_pages_bounded:
  assumes "cache_pages_bounded w"
  shows "cache_pages_bounded (snd (execute self t p ps w))"
proof (cases rule: execute_cases[of w self t p ps])
  case (hit v)
  with assms show ?thesis by simp
next
  case (rejected e)
  with assms show ?thesis by (simp add: cache_pages_bounded_def emit_def)
next
  case (row_failure fq)
  with assms show ?thesis by (simp add: cache_pages_bounded_def emit_def)
next
  case (count_failure fq)
  with assms show ?thesis by (simp add: cache_pages_bounded_def emit_def)
next
  case (computed fq cq entities count)
  from query_all_length[OF computed(4)] have "length entities \<le> nat ps" .
  with assms computed(6) show ?thesis
    by (auto simp: cache_pages_bounded_def cache_key_of_def)
qed

lemma fresh_world_pages_bounded: "cache_pages_bounded (fresh_world rows)"
  by (simp add: cache_pages_bounded_def fresh_world_def)

lemma sort_rows_no_order: "sort_rows [] rows = rows"
proof -
  have "foldr (insert_row (order_le [])) rows [] = rows"
  proof (induction rows)
    case Nil
    then show ?case by simp
  next
    case (Cons x xs)
    then show ?case by (cases xs) simp_all
  qed
  then show ?thesis by (simp add: sort_rows_def)
qed

lemma matching_rows_no_filter: "matching_rows [] rows = rows"
  by (simp add: matching_rows_def)




lemma cache_miss_None: "\<not> cache_has c key \<Longrightarrow> c key = None"
  unfolding cache_has_def by blast

lemma session_execute_scalar_ok:
  assumes "\<not> negative (c_offset s)" "\<not> negative (c_limit s)"
  shows "\<exists>c. session_execute_scalar rows s = Inr c"
  using assms by (simp add: session_execute_scalar_def window_def split: list.splits)

lemma execute_returns:
  assumes wf: "default_directions_ok (config self)"
    and r: "resolves (config self) (parser self t)"
    and miss: "\<not> cache_has (cache w) (cache_key_of self t page page_size)"
    and page: "1 \<le> page" and size: "1 \<le> page_size"
    and cw: "\<And>cq. prepare_db_query (config self)
        (query_options LazyLoadAll (create_count_query (config self))) (parser self t) False = Inr cq
        \<Longrightarrow> \<not> negative (offset_value cq) \<and> \<not> negative (limit_value cq)"
  shows "\<exists>count entities w'. execute self t page page_size w = (Inr (count, entities), w')"
proof -
  from prepare_sorted_ok[OF wf r] obtain fq where fq: "prepare_db_query (config self)
      (query_options LazyLoadAll (create_filter_query (config self))) (parser self t) True = Inr fq"
    by blast
  from count_query_accepted[OF fq] obtain cq where cq: "prepare_db_query (config self)
      (query_options LazyLoadAll (create_count_query (config self))) (parser self t) False = Inr cq"
    by blast
  from miss have none: "cache w (cache_key_of self t page page_size) = None"
    by (rule cache_miss_None)
  from cw[OF cq] obtain count where count: "session_execute_scalar (dataset w)
      (order_by_none (with_only_columns_count (query_statement cq))) = Inr count"
    using session_execute_scalar_ok[of
        "order_by_none (with_only_columns_count (query_statement cq))" "dataset w"]
    by (auto simp: order_by_none_def with_only_columns_count_def query_statement_def)
  show ?thesis
    unfolding execute_miss_accepted[OF none fq cq]
    by (simp add: query_all_page[OF page size] count)
qed

lemma cache_has_update: "cache_has (c(k \<mapsto> v)) k' \<longleftrightarrow> k' = k \<or> cache_has c k'"
  by (simp add: cache_has_def)

lemma cache_has_Some: "c k = Some v \<Longrightarrow> cache_has c k"
  by (simp add: cache_has_def)

lemma clause_total: "clause_before c a b \<or> clause_tie c a b \<or> clause_before c b a"
  by (cases c) auto

lemma clause_cases:
  "clause_tie c a b \<Longrightarrow> clause_tie c b a"
  "clause_tie c a b \<Longrightarrow> clause_tie c b d \<Longrightarrow> clause_tie c a d"
  "clause_before c a b \<Longrightarrow> clause_before c b d \<Longrightarrow> clause_before c a d"
  "clause_before c a b \<Longrightarrow> clause_tie c b d \<Longrightarrow> clause_before c a d"
  "clause_tie c a b \<Longrightarrow> clause_before c b d \<Longrightarrow> clause_before c a d"
  by (cases c; auto)+

lemma order_le_total: "order_le cs a b \<or> order_le cs b a"
proof (induction cs)
  case Nil
  then show ?case by simp
next
  case (Cons c cs)
  with clause_total[of c a b] clause_cases(1)[of c a b] show ?case by auto
qed

lemma order_le_trans: "order_le cs a b \<Longrightarrow> order_le cs b d \<Longrightarrow> order_le cs a d"
proof (induction cs)
  case Nil
  then show ?case by simp
next
  case (Cons c cs)
  then show ?case
    using clause_cases(2-5)[of c a b d] by auto
qed

lemma set_insert_row: "set (insert_row le x xs) = insert x (set xs)"
  by (induction xs) auto

lemma length_insert_row: "length (insert_row le x xs) = Suc (length xs)"
  by (induction xs) auto

lemma sorted_insert_row:
  assumes total: "\<And>a b. le a b \<or> le b a"
    and trans: "\<And>a b c. le a b \<Longrightarrow> le b c \<Longrightarrow> le a c"
    and "sorted_wrt le xs"
  shows "sorted_wrt le (insert_row le x xs)"
  using assms(3)
proof (induction xs)
  case Nil
  then show ?case by simp
next
  case (Cons y ys)
  show ?case
  proof (cases "le x y")
    case True
    with Cons.prems trans show ?thesis by auto
  next
    case False
    with total have "le y x" by blast
    with False Cons show ?thesis by (auto simp: set_insert_row)
  qed
qed

lemma sorted_sort_rows: "sorted_wrt (order_le cs) (sort_rows cs rows)"
  unfolding sort_rows_def
proof (induction rows)
  case Nil
  then show ?case by simp
next
  case (Cons r rows)
  have "sorted_wrt (order_le cs) (insert_row (order_le cs) r (foldr (insert_row (order_le cs)) rows []))"
    by (rule sorted_insert_row[OF order_le_total order_le_trans Cons])
  then show ?case by simp
qed

lemma set_sort_rows: "set (sort_rows cs rows) = set rows"
  unfolding sort_rows_def by (induction rows) (simp_all add: set_insert_row)

lemma length_sort_rows: "length (sort_rows cs rows) = length rows"
  unfolding sort_rows_def by (induction rows) (simp_all add: length_insert_row)

lemma sorted_window:
  assumes "window off lim rows = Inr page" "sorted_wrt le rows"
  shows "sorted_wrt le page"
proof -
  from assms(1) have "page = first_rows lim (skip_rows off rows)"
    by (simp add: window_def split: if_splits)
  with assms(2) show ?thesis
    by (auto simp: first_rows_def skip_rows_def sorted_wrt_take sorted_wrt_drop split: option.splits)
qed

lemma sorted_query_all:
  assumes "query_all rows q = Inr page"
  shows "sorted_wrt (order_le (order_clauses q)) page"
  using assms sorted_window[OF _ sorted_sort_rows] by (simp add: query_all_def)

lemma get_direction_spec:
  assumes "dd = SORT_ASC \<or> dd = SORT_DESC"
  shows "get_direction d dd = Inr (spec_direction d dd)"
  using assms by (cases d) (auto simp: get_direction_def spec_direction_def)

lemma spec_direction_asc_desc:
  assumes "dd = SORT_ASC \<or> dd = SORT_DESC"
  shows "spec_direction d dd = SORT_ASC \<or> spec_direction d dd = SORT_DESC"
  using assms by (cases d) (auto simp: spec_direction_def)

lemma apply_sort_tokens_clauses:
  assumes wf: "default_directions_ok cfg"
    and known: "\<forall>token \<in> set ts. st_name token \<in> set (dict_keys (sort_columns cfg))"
  shows "apply_sort_tokens cfg q ts
     = Inr (q\<lparr>order_clauses := order_clauses q @ map (sort_clause cfg) ts\<rparr>)"
  using known
proof (induction ts arbitrary: q)
  case Nil
  then show ?case by simp
next
  case (Cons t ts)
  from Cons.prems obtain cd where cd: "map_of (sort_columns cfg) (st_name t) = Some cd"
    by (auto simp: keys_iff)
  obtain c dd where cdd: "cd = (c, dd)" by (cases cd)
  from cd cdd have "(st_name t, c, dd) \<in> set (sort_columns cfg)"
    by (auto dest: map_of_SomeD)
  with wf have dd: "dd = SORT_ASC \<or> dd = SORT_DESC"
    by (auto simp: default_directions_ok_def)
  note g = get_direction_spec[OF dd, of "st_direction t"]
  note s = spec_direction_asc_desc[OF dd, of "st_direction t"]
  from Cons.prems have rest: "\<forall>token \<in> set ts. st_name token \<in> set (dict_keys (sort_columns cfg))"
    by simp
  from s show ?case
  proof
    assume a: "spec_direction (st_direction t) dd = SORT_ASC"
    then show ?thesis
      using cd cdd g Cons.IH[OF rest]
      by (simp add: sort_clause_def query_order_by_def column_asc_def)
  next
    assume d: "spec_direction (st_direction t) dd = SORT_DESC"
    then show ?thesis
      using cd cdd g Cons.IH[OF rest]
      by (simp add: sort_clause_def query_order_by_def column_desc_def)
  qed
qed


lemma prepare_sorted_shape:
  assumes wf: "default_directions_ok cfg"
    and run: "prepare_db_query cfg q sq True = Inr fq"
  shows "\<exists>q3. prepare_db_query cfg q (sq\<lparr>sort_tokens := []\<rparr>) True = Inr (finalize_query cfg q3)
     \<and> fq = finalize_query cfg
            (q3\<lparr>order_clauses := order_clauses q3 @ map (sort_clause cfg) (sort_tokens sq)\<rparr>)"
proof -
  from run obtain q1 q2 q3 q4 where
    a: "apply_anonymous_tokens cfg q (anonymous_tokens sq) = Inr q1"
    and n: "apply_named_tokens cfg q1 (named_tokens sq) = Inr q2"
    and s: "apply_special_tokens cfg q2 (special_tokens sq) = Inr q3"
    and o: "apply_sort_tokens cfg q3 (sort_tokens sq) = Inr q4"
    and f: "fq = finalize_query cfg q4"
    by (auto simp: prepare_db_query_def split: sum.splits)
  from sort_ok_imp[OF o] have known:
    "\<forall>token \<in> set (sort_tokens sq). st_name token \<in> set (dict_keys (sort_columns cfg))" .
  from apply_sort_tokens_clauses[OF wf known, of q3] o
  have "q4 = q3\<lparr>order_clauses := order_clauses q3 @ map (sort_clause cfg) (sort_tokens sq)\<rparr>"
    by simp
  moreover have "prepare_db_query cfg q (sq\<lparr>sort_tokens := []\<rparr>) True
      = Inr (finalize_query cfg q3)"
    using a n s by (simp add: prepare_db_query_def)
  ultimately show ?thesis using f by blast
qed

lemma sorted_format_dict_keys:
  "sorted (format_dict_keys d) \<and> set (format_dict_keys d) = set (dict_keys d)
   \<and> length (format_dict_keys d) = length (dict_keys d)
   \<and> (distinct (dict_keys d) \<longrightarrow> distinct (format_dict_keys d))"
  by (simp add: format_dict_keys_def)

lemma prepare_search_error_shape:
  assumes "prepare_db_query cfg q sq use_sort = Inl (SearchError m)"
  shows "(m = AnonymousNotValid \<and> anonymous_filter cfg = None \<and> anonymous_tokens sq \<noteq> [])
     \<or> (\<exists>token \<in> set (named_tokens sq). nt_name token \<notin> set (dict_keys (named_filters cfg))
          \<and> m = UnknownNamedToken (nt_name token) (format_dict_keys (named_filters cfg)))
     \<or> (\<exists>token \<in> set (special_tokens sq). sp_value token \<notin> set (dict_keys (special_filters cfg))
          \<and> m = UnknownSpecialToken (sp_value token) (format_dict_keys (special_filters cfg)))
     \<or> (\<exists>token \<in> set (sort_tokens sq). st_name token \<notin> set (dict_keys (sort_columns cfg))
          \<and> m = UnknownSortToken (st_name token) (format_dict_keys (sort_columns cfg)))"
proof (cases "apply_anonymous_tokens cfg q (anonymous_tokens sq)")
  case (Inl e)
  with assms have "e = SearchError m" by (simp add: prepare_db_query_def)
  moreover from anonymous_error[OF Inl] have "e = SearchError AnonymousNotValid" .
  moreover from Inl anonymous_ok_iff[of cfg q "anonymous_tokens sq"]
  have "anonymous_filter cfg = None \<and> anonymous_tokens sq \<noteq> []" by auto
  ultimately show ?thesis by simp
next
  case a: (Inr q1)
  show ?thesis
  proof (cases "apply_named_tokens cfg q1 (named_tokens sq)")
    case (Inl e)
    with assms a have "e = SearchError m" by (simp add: prepare_db_query_def)
    with named_error[OF Inl] show ?thesis by auto
  next
    case n: (Inr q2)
    show ?thesis
    proof (cases "apply_special_tokens cfg q2 (special_tokens sq)")
      case (Inl e)
      with assms a n have "e = SearchError m" by (simp add: prepare_db_query_def)
      with special_error[OF Inl] show ?thesis by auto
    next
      case s: (Inr q3)
      with assms a n have o: "use_sort \<and> apply_sort_tokens cfg q3 (sort_tokens sq) = Inl (SearchError m)"
        by (auto simp: prepare_db_query_def split: if_splits sum.splits)
      then have "apply_sort_tokens cfg q3 (sort_tokens sq) = Inl (SearchError m)" by simp
      from sort_error[OF this] show ?thesis by auto
    qed
  qed
qed







text \<open>Unfolding sets for runs on the concrete search domains.\<close>

lemmas parse_defs = spec_parse_def parse_term_def empty_search_query_def is_whitespace_def

lemmas domain_defs = entry_executor_def strict_executor_def entry_config_def strict_config_def
  entry_config_copy_def number_executor_def number_config_def fresh_world_def empty_query_def

lemmas resolve_defs = resolves_def filters_resolve_def sorts_resolve_def default_directions_ok_def
  dict_keys_def

lemmas query_defs = query_options_def query_order_by_def query_filter_def query_offset_def
  query_limit_def column_asc_def column_desc_def matching_rows_def sort_rows_def negative_def
  skip_rows_def first_rows_def window_def query_all_def query_statement_def
  with_only_columns_count_def order_by_none_def session_execute_scalar_def

lemmas run_defs = execute_def cache_key_of_def py_id_def cache_has_def cache_get_def
  cache_put_def emit_def prepare_db_query_def get_direction_def Let_def


section \<open>When execute raises a SearchError\<close>

text \<open>
  Claim C1. For a well-formed configuration, \<open>execute\<close> raises a SearchError exactly
  when the parsed query does not resolve against the configuration: it has an
  anonymous token and the configuration has no anonymous handler, or a named token
  whose name is no key of \<open>named_filters\<close>, or a special token whose value is no key
  of \<open>special_filters\<close>, or a sort token whose name is no key of \<open>sort_columns\<close>. A
  query whose tokens all resolve raises no SearchError. The state is one where the
  cache has no entry under the key of the call, or has one that an accepted query
  left there; executions keep the cache in such states (\<open>execute_keeps_cache_sound\<close>
  below).
\<close>

theorem execute_search_error_iff:
  assumes wf: "default_directions_ok (config self)"
    and sound: "cache_has (cache w) (cache_key_of self t p ps)
                  \<longrightarrow> resolves (config self) (parser self t)"
  shows "(\<exists>m. fst (execute self t p ps w) = Inl (SearchError m))
           \<longleftrightarrow> \<not> resolves (config self) (parser self t)"
proof
  assume "\<exists>m. fst (execute self t p ps w) = Inl (SearchError m)"
  then obtain m where "fst (execute self t p ps w) = Inl (SearchError m)" ..
  from execute_search_error_miss[OF this]
  have "\<not> (\<exists>q'. prepare_db_query (config self)
      (query_options LazyLoadAll (create_filter_query (config self))) (parser self t) True = Inr q')"
    by simp
  with prepare_sorted_ok[OF wf] show "\<not> resolves (config self) (parser self t)" by blast
next
  assume nr: "\<not> resolves (config self) (parser self t)"
  with sound have "\<not> cache_has (cache w) (cache_key_of self t p ps)" by blast
  then have miss: "cache w (cache_key_of self t p ps) = None"
    unfolding cache_has_def by blast
  obtain e where e: "prepare_db_query (config self)
      (query_options LazyLoadAll (create_filter_query (config self))) (parser self t) True = Inl e"
    using nr prepare_sorted_ok_imp
    by (cases "prepare_db_query (config self)
      (query_options LazyLoadAll (create_filter_query (config self))) (parser self t) True") auto
  from prepare_error_search[OF wf e] obtain m where "e = SearchError m" ..
  with execute_miss_rejected[OF miss e] show "\<exists>m. fst (execute self t p ps w) = Inl (SearchError m)"
    by simp
qed

theorem execute_search_error_iff_witness:
  "default_directions_ok (config entry_executor)
   \<and> \<not> cache_has (cache (fresh_world entries)) (cache_key_of entry_executor ''cat sort:size'' 1 100)
   \<and> \<not> resolves (config entry_executor) (parser entry_executor ''cat sort:size'')
   \<and> (\<exists>m. fst (execute entry_executor ''cat sort:size'' 1 100 (fresh_world entries))
              = Inl (SearchError m))
   \<and> resolves (config entry_executor) (parser entry_executor ''cat user:bob'')
   \<and> \<not> (\<exists>m. fst (execute entry_executor ''cat user:bob'' 1 100 (fresh_world entries))
              = Inl (SearchError m))"
proof -
  have wf: "default_directions_ok (config entry_executor)"
    by (simp add: domain_defs resolve_defs)
  have miss: "\<not> cache_has (cache (fresh_world entries)) k" for k
    by (simp add: cache_has_def fresh_world_def)
  have bad: "\<not> resolves (config entry_executor) (parser entry_executor ''cat sort:size'')"
    by (simp add: domain_defs resolve_defs parse_defs)
  have good: "resolves (config entry_executor) (parser entry_executor ''cat user:bob'')"
    by (simp add: domain_defs resolve_defs parse_defs)
  have "\<exists>m. fst (execute entry_executor ''cat sort:size'' 1 100 (fresh_world entries))
              = Inl (SearchError m)"
    using execute_search_error_iff[of entry_executor "fresh_world entries" "''cat sort:size''" 1 100]
      wf miss bad by blast
  moreover have "\<not> (\<exists>m. fst (execute entry_executor ''cat user:bob'' 1 100 (fresh_world entries))
              = Inl (SearchError m))"
    using execute_search_error_iff[of entry_executor "fresh_world entries" "''cat user:bob''" 1 100]
      wf miss good by blast
  ultimately show ?thesis using wf miss bad good by blast
qed

text \<open>
  Claim C7. A SearchError that \<open>execute\<close> raises for an unknown named, special or
  sort token names the token and carries the keys of the dictionary of its category
  as \<^verbatim>\<open>_format_dict_keys\<close> lists them: sorted, with the same elements and the same
  length as the keys of the dictionary. The run below is the query \<^verbatim>\<open>foo:bar\<close>
  against a configuration whose named filters were inserted as \<^verbatim>\<open>user\<close>, \<^verbatim>\<open>tag\<close>:
  the message lists \<^verbatim>\<open>['tag', 'user']\<close>.
\<close>

theorem unknown_token_message:
  assumes "fst (execute self t p ps w) = Inl (SearchError m)"
  shows "(case m of
            AnonymousNotValid \<Rightarrow>
              anonymous_filter (config self) = None
              \<and> anonymous_tokens (parser self t) \<noteq> []
          | UnknownNamedToken name ks \<Rightarrow>
              name \<in> nt_name ` set (named_tokens (parser self t))
              \<and> name \<notin> set (dict_keys (named_filters (config self)))
              \<and> ks = format_dict_keys (named_filters (config self))
              \<and> sorted ks \<and> set ks = set (dict_keys (named_filters (config self)))
              \<and> length ks = length (dict_keys (named_filters (config self)))
          | UnknownSpecialToken val ks \<Rightarrow>
              val \<in> sp_value ` set (special_tokens (parser self t))
              \<and> val \<notin> set (dict_keys (special_filters (config self)))
              \<and> ks = format_dict_keys (special_filters (config self))
              \<and> sorted ks \<and> set ks = set (dict_keys (special_filters (config self)))
              \<and> length ks = length (dict_keys (special_filters (config self)))
          | UnknownSortToken name ks \<Rightarrow>
              name \<in> st_name ` set (sort_tokens (parser self t))
              \<and> name \<notin> set (dict_keys (sort_columns (config self)))
              \<and> ks = format_dict_keys (sort_columns (config self))
              \<and> sorted ks \<and> set ks = set (dict_keys (sort_columns (config self)))
              \<and> length ks = length (dict_keys (sort_columns (config self))))"
proof -
  from execute_search_error_miss[OF assms]
  have "prepare_db_query (config self)
      (query_options LazyLoadAll (create_filter_query (config self))) (parser self t) True
        = Inl (SearchError m)" by simp
  from prepare_search_error_shape[OF this] show ?thesis
    using sorted_format_dict_keys[of "named_filters (config self)"]
      sorted_format_dict_keys[of "special_filters (config self)"]
      sorted_format_dict_keys[of "sort_columns (config self)"]
    by (auto split: search_error_message.splits)
qed

theorem unknown_token_message_witness:
  "dict_keys (named_filters (config entry_executor)) = [''user'', ''tag'']
   \<and> named_tokens (parser entry_executor ''foo:bar'')
       = [\<lparr>nt_name = ''foo'', nt_criterion = ''bar'', nt_negated = False\<rparr>]
   \<and> fst (execute entry_executor ''foo:bar'' 1 100 (fresh_world entries))
       = Inl (SearchError (UnknownNamedToken ''foo'' [''tag'', ''user'']))
   \<and> format_dict_keys (named_filters (config entry_executor)) = [''tag'', ''user'']
   \<and> sorted [''tag'', ''user'']"
proof -
  have keys: "dict_keys (named_filters (config entry_executor)) = [''user'', ''tag'']"
    by (simp add: domain_defs dict_keys_def)
  have toks: "named_tokens (parser entry_executor ''foo:bar'')
       = [\<lparr>nt_name = ''foo'', nt_criterion = ''bar'', nt_negated = False\<rparr>]"
    by (simp add: domain_defs parse_defs)
  have run: "fst (execute entry_executor ''foo:bar'' 1 100 (fresh_world entries))
       = Inl (SearchError (UnknownNamedToken ''foo'' [''tag'', ''user'']))"
    by (simp add: run_defs query_defs domain_defs parse_defs format_dict_keys_def dict_keys_def)
  from unknown_token_message[OF run]
  have k: "format_dict_keys (named_filters (config entry_executor)) = [''tag'', ''user'']"
    by simp
  have "sorted [''tag'', ''user'']" by simp
  with keys toks run k show ?thesis by simp
qed

section \<open>Pagination, the count and the order\<close>

text \<open>
  Claim C2. For a page of at least 1 and a page size of at least 1 (the upper bound
  100 of the page size plays no part), a call of \<open>execute\<close> that returns, in a state
  whose cache is bounded, returns at most \<open>page_size\<close> entities. On a cache miss the
  entities are those the row query returns with OFFSET \<open>(page - 1) * page_size\<close> and
  LIMIT \<open>page_size\<close>: the rows that match the prepared filter query, in its order,
  without the first \<open>(page - 1) * page_size\<close> and cut after \<open>page_size\<close>. Executions
  keep the cache bounded (\<open>execute_keeps_pages_bounded\<close>). The run below is the
  table of the entities 1 to 150 with the empty query, page 2 and page size 100: it
  returns the 50 entities 101 to 150 and the total 150.
\<close>

theorem execute_page:
  assumes page: "1 \<le> page" and size: "1 \<le> page_size"
    and bounded: "cache_pages_bounded w"
    and run: "execute self t page page_size w = (Inr (count, entities), w')"
  shows "length entities \<le> nat page_size
     \<and> (\<not> cache_has (cache w) (cache_key_of self t page page_size) \<longrightarrow>
          (\<exists>fq. prepare_db_query (config self)
                  (query_options LazyLoadAll (create_filter_query (config self)))
                  (parser self t) True = Inr fq
             \<and> query_all (dataset w)
                  (query_limit page_size (query_offset ((page - 1) * page_size) fq))
                = Inr entities
             \<and> entities = take (nat page_size) (drop (nat ((page - 1) * page_size))
                  (sort_rows (order_clauses fq) (matching_rows (where_clauses fq) (dataset w))))))"
proof (cases rule: execute_cases[of w self t page page_size])
  case (hit v)
  with run have v: "v = (count, entities)" by simp
  with hit(1) have "cache w (py_id (config self), t, page, page_size) = Some (count, entities)"
    by (simp add: cache_key_of_def)
  with bounded have "length entities \<le> nat page_size"
    unfolding cache_pages_bounded_def by blast
  with hit(1) show ?thesis by (simp add: cache_has_def)
next
  case (rejected e)
  with run show ?thesis by simp
next
  case (row_failure fq)
  with run show ?thesis by simp
next
  case (count_failure fq)
  with run show ?thesis by simp
next
  case (computed fq cq es c)
  with run have es: "es = entities" by simp
  from computed(4) es have q: "query_all (dataset w)
      (query_limit page_size (query_offset ((page - 1) * page_size) fq)) = Inr entities" by simp
  from query_all_length[OF q] have len: "length entities \<le> nat page_size" .
  from q query_all_page[OF page size, of "dataset w" fq]
  have "entities = take (nat page_size) (drop (nat ((page - 1) * page_size))
                  (sort_rows (order_clauses fq) (matching_rows (where_clauses fq) (dataset w))))"
    by simp
  with len q computed(2) show ?thesis by blast
qed

theorem execute_page_witness:
  "(1::int) \<le> 2 \<and> (1::int) \<le> 100
   \<and> cache_pages_bounded (fresh_world [1..<151])
   \<and> execute number_executor '''' 2 100 (fresh_world [1..<151])
       = (Inr (Some 150, [101..<151]),
          snd (execute number_executor '''' 2 100 (fresh_world [1..<151])))
   \<and> length [101..<151::nat] = 50
   \<and> length [101..<151::nat] \<le> nat 100"
proof -
  have f: "fst (execute number_executor '''' 2 100 (fresh_world [1..<151]))
      = Inr (Some 150, [101..<151])"
    by (simp add: run_defs domain_defs parse_defs query_all_def window_def negative_def
        skip_rows_def first_rows_def session_execute_scalar_def query_statement_def
        with_only_columns_count_def order_by_none_def query_options_def query_limit_def
        query_offset_def sort_rows_no_order matching_rows_no_filter)
  then have run: "execute number_executor '''' 2 100 (fresh_world [1..<151])
       = (Inr (Some 150, [101..<151]),
          snd (execute number_executor '''' 2 100 (fresh_world [1..<151])))"
    by (metis prod.collapse)
  have b: "cache_pages_bounded (fresh_world [1..<151::nat])"
    by (rule fresh_world_pages_bounded)
  from execute_page[OF _ _ b run] have "length [101..<151::nat] \<le> nat 100" by simp
  with run b show ?thesis by simp
qed




text \<open>
  Claim C8. For a well-formed configuration and sort tokens that it knows, the loop
  over the sort tokens adds one ORDER BY clause per token, in the listed order, after
  the clauses the query has already; each clause orders by the column of its token in
  the direction resolved against the default of that column. In
  \<^verbatim>\<open>_prepare_db_query\<close> this happens after the filters and before
  \<^verbatim>\<open>finalize_query\<close>. A query ordered by these clauses alone returns rows sorted on
  the first token's clause, with rows that tie on it sorted on the second, and so on.
  The run below is the query \<^verbatim>\<open>sort:name sort:date\<close>: the names ascend, and the two
  entries named \<^verbatim>\<open>cat\<close> come in the descending order of their dates, the default of
  that column.
\<close>

theorem sort_tokens_in_listed_order:
  fixes cfg :: "('e, 'k::linorder) search_config"
  assumes wf: "default_directions_ok cfg"
    and known: "\<forall>token \<in> set (sort_tokens sq). st_name token \<in> set (dict_keys (sort_columns cfg))"
  shows "apply_sort_tokens cfg q (sort_tokens sq)
           = Inr (q\<lparr>order_clauses := order_clauses q @ map (sort_clause cfg) (sort_tokens sq)\<rparr>)
     \<and> (\<forall>fq. prepare_db_query cfg q sq True = Inr fq \<longrightarrow>
          (\<exists>q3. prepare_db_query cfg q (sq\<lparr>sort_tokens := []\<rparr>) True
                   = Inr (finalize_query cfg q3)
             \<and> fq = finalize_query cfg
                  (q3\<lparr>order_clauses := order_clauses q3
                         @ map (sort_clause cfg) (sort_tokens sq)\<rparr>)))
     \<and> (\<forall>rows off lim page.
          query_all rows (query_limit lim (query_offset off
             (q\<lparr>order_clauses := map (sort_clause cfg) (sort_tokens sq)\<rparr>))) = Inr page
          \<longrightarrow> sorted_wrt (order_le (map (sort_clause cfg) (sort_tokens sq))) page)
     \<and> (\<forall>c1 c2 a b. order_le [c1, c2 :: ('e, 'k) order_clause] a b
          \<longleftrightarrow> clause_before c1 a b
              \<or> (clause_tie c1 a b \<and> (clause_before c2 a b \<or> clause_tie c2 a b)))"
proof -
  have one: "apply_sort_tokens cfg q (sort_tokens sq)
           = Inr (q\<lparr>order_clauses := order_clauses q @ map (sort_clause cfg) (sort_tokens sq)\<rparr>)"
    by (rule apply_sort_tokens_clauses[OF wf known])
  have two: "\<exists>q3. prepare_db_query cfg q (sq\<lparr>sort_tokens := []\<rparr>) True
                   = Inr (finalize_query cfg q3)
             \<and> fq = finalize_query cfg
                  (q3\<lparr>order_clauses := order_clauses q3
                         @ map (sort_clause cfg) (sort_tokens sq)\<rparr>)"
    if "prepare_db_query cfg q sq True = Inr fq" for fq
    using prepare_sorted_shape[OF wf that] .
  have three: "sorted_wrt (order_le (map (sort_clause cfg) (sort_tokens sq))) page"
    if "query_all rows (query_limit lim (query_offset off
             (q\<lparr>order_clauses := map (sort_clause cfg) (sort_tokens sq)\<rparr>))) = Inr page"
    for rows off lim page
    using sorted_query_all[OF that] by (simp add: query_limit_def query_offset_def)
  have four: "order_le [c1, c2] a b
          \<longleftrightarrow> clause_before c1 a b
              \<or> (clause_tie c1 a b \<and> (clause_before c2 a b \<or> clause_tie c2 a b))"
    for c1 c2 :: "('e, 'k) order_clause" and a b
    by simp
  from one two three four show ?thesis by blast
qed

theorem sort_tokens_in_listed_order_witness:
  "default_directions_ok entry_config
   \<and> sort_tokens (spec_parse ''sort:name sort:date'')
       = [\<lparr>st_name = ''name'', st_direction = SORT_DEFAULT, st_negated = False\<rparr>,
          \<lparr>st_name = ''date'', st_direction = SORT_DEFAULT, st_negated = False\<rparr>]
   \<and> map (sort_clause entry_config) (sort_tokens (spec_parse ''sort:name sort:date''))
       = [Asc e_name, Desc e_date]
   \<and> apply_sort_tokens entry_config empty_query (sort_tokens (spec_parse ''sort:name sort:date''))
       = Inr (empty_query\<lparr>order_clauses := [Asc e_name, Desc e_date]\<rparr>)
   \<and> fst (execute entry_executor ''sort:name sort:date'' 1 100 (fresh_world entries))
       = Inr (Some 4,
           [\<lparr>e_name = ''ant'', e_date = ''2016-04-01'', e_user = ''amy'', e_tag = ''bug''\<rparr>,
            \<lparr>e_name = ''bee'', e_date = ''2016-04-01'', e_user = ''bob'', e_tag = ''bug''\<rparr>,
            \<lparr>e_name = ''cat'', e_date = ''2016-04-03'', e_user = ''amy'', e_tag = ''pet''\<rparr>,
            \<lparr>e_name = ''cat'', e_date = ''2016-04-02'', e_user = ''bob'', e_tag = ''pet''\<rparr>])"
proof -
  let ?sq = "spec_parse ''sort:name sort:date''"
  have wf: "default_directions_ok entry_config"
    by (simp add: domain_defs resolve_defs)
  have toks: "sort_tokens ?sq
       = [\<lparr>st_name = ''name'', st_direction = SORT_DEFAULT, st_negated = False\<rparr>,
          \<lparr>st_name = ''date'', st_direction = SORT_DEFAULT, st_negated = False\<rparr>]"
    by (simp add: parse_defs)
  have known: "\<forall>token \<in> set (sort_tokens ?sq).
      st_name token \<in> set (dict_keys (sort_columns entry_config))"
    by (simp add: toks domain_defs resolve_defs)
  have clauses: "map (sort_clause entry_config) (sort_tokens ?sq) = [Asc e_name, Desc e_date]"
    by (simp add: toks sort_clause_def spec_direction_def domain_defs)
  from sort_tokens_in_listed_order[OF wf known, of empty_query]
  have "apply_sort_tokens entry_config empty_query (sort_tokens ?sq)
      = Inr (empty_query\<lparr>order_clauses := order_clauses empty_query
               @ map (sort_clause entry_config) (sort_tokens ?sq)\<rparr>)"
    by blast
  then have applied: "apply_sort_tokens entry_config empty_query (sort_tokens ?sq)
      = Inr (empty_query\<lparr>order_clauses := [Asc e_name, Desc e_date]\<rparr>)"
    by (simp add: clauses empty_query_def)
  have run: "fst (execute entry_executor ''sort:name sort:date'' 1 100 (fresh_world entries))
       = Inr (Some 4,
           [\<lparr>e_name = ''ant'', e_date = ''2016-04-01'', e_user = ''amy'', e_tag = ''bug''\<rparr>,
            \<lparr>e_name = ''bee'', e_date = ''2016-04-01'', e_user = ''bob'', e_tag = ''bug''\<rparr>,
            \<lparr>e_name = ''cat'', e_date = ''2016-04-03'', e_user = ''amy'', e_tag = ''pet''\<rparr>,
            \<lparr>e_name = ''cat'', e_date = ''2016-04-02'', e_user = ''bob'', e_tag = ''pet''\<rparr>])"
    by (simp add: run_defs query_defs domain_defs parse_defs entries_def)
  from wf toks clauses applied run show ?thesis by blast
qed

section \<open>The cache: keys, hits, misses and failures\<close>

text \<open>
  Claim C9. The cache key is the tuple of the identity of the configuration, the
  query text, the page and the page size; two keys are equal exactly when the four
  components are. After a call by an executor \<open>a\<close> that returned, a key of an
  executor \<open>b\<close> that had no entry before has one exactly when the identities of the
  two configurations, the texts, the pages and the page sizes are equal. Two
  configuration instances, which have two identities, share no entry, also when
  their contents are the same.
\<close>

theorem cache_key_components:
  assumes run: "execute a t1 p1 s1 w = (Inr r, w')"
    and fresh: "\<not> cache_has (cache w) (cache_key_of b t2 p2 s2)"
  shows "((cache_key_of a t1 p1 s1 = cache_key_of b t2 p2 s2)
           \<longleftrightarrow> (py_id (config a) = py_id (config b) \<and> t1 = t2 \<and> p1 = p2 \<and> s1 = s2))
     \<and> (cache_has (cache w') (cache_key_of b t2 p2 s2)
           \<longleftrightarrow> (py_id (config a) = py_id (config b) \<and> t1 = t2 \<and> p1 = p2 \<and> s1 = s2))
     \<and> (obj_id (config a) \<noteq> obj_id (config b)
           \<longrightarrow> \<not> cache_has (cache w') (cache_key_of b t2 p2 s2))"
proof -
  have keys: "(cache_key_of a t1 p1 s1 = cache_key_of b t2 p2 s2)
           \<longleftrightarrow> (py_id (config a) = py_id (config b) \<and> t1 = t2 \<and> p1 = p2 \<and> s1 = s2)"
    by (simp add: cache_key_of_def)
  have entry: "cache_has (cache w') (cache_key_of b t2 p2 s2)
           \<longleftrightarrow> cache_key_of a t1 p1 s1 = cache_key_of b t2 p2 s2"
  proof (cases rule: execute_cases[of w a t1 p1 s1])
    case (hit v)
    with run have "w' = w" by simp
    moreover from hit(1) have "cache_has (cache w) (cache_key_of a t1 p1 s1)"
      by (rule cache_has_Some[of "cache w"])
    with fresh have "cache_key_of a t1 p1 s1 \<noteq> cache_key_of b t2 p2 s2" by auto
    ultimately show ?thesis using fresh by simp
  next
    case (rejected e)
    with run show ?thesis by simp
  next
    case (row_failure fq)
    with run show ?thesis by simp
  next
    case (count_failure fq)
    with run show ?thesis by simp
  next
    case (computed fq cq entities count)
    with run have "cache w' = (cache w)(cache_key_of a t1 p1 s1 \<mapsto> (count, entities))"
      by auto
    with fresh show ?thesis by (auto simp: cache_has_update)
  qed
  from keys entry show ?thesis by (auto simp: py_id_def)
qed

theorem cache_key_components_witness:
  "fst (execute entry_executor ''cat'' 1 100 (fresh_world entries))
     = Inr (Some 2,
            [\<lparr>e_name = ''cat'', e_date = ''2016-04-02'', e_user = ''bob'', e_tag = ''pet''\<rparr>,
             \<lparr>e_name = ''cat'', e_date = ''2016-04-03'', e_user = ''amy'', e_tag = ''pet''\<rparr>])
   \<and> entry_config_copy\<lparr>obj_id := obj_id entry_config\<rparr> = entry_config
   \<and> obj_id entry_config_copy \<noteq> obj_id entry_config
   \<and> cache_key_of (entry_executor\<lparr>config := entry_config_copy\<rparr>) ''cat'' 1 100
       \<noteq> cache_key_of entry_executor ''cat'' 1 100
   \<and> \<not> cache_has (cache (snd (execute entry_executor ''cat'' 1 100 (fresh_world entries))))
         (cache_key_of (entry_executor\<lparr>config := entry_config_copy\<rparr>) ''cat'' 1 100)
   \<and> cache_has (cache (snd (execute entry_executor ''cat'' 1 100 (fresh_world entries))))
         (cache_key_of entry_executor ''cat'' 1 100)
   \<and> \<not> cache_has (cache (snd (execute entry_executor ''cat'' 1 100 (fresh_world entries))))
         (cache_key_of entry_executor ''cat'' 2 100)"
proof -
  let ?r = "(Some (2::int),
            [\<lparr>e_name = ''cat'', e_date = ''2016-04-02'', e_user = ''bob'', e_tag = ''pet''\<rparr>,
             \<lparr>e_name = ''cat'', e_date = ''2016-04-03'', e_user = ''amy'', e_tag = ''pet''\<rparr>])"
  let ?w' = "snd (execute entry_executor ''cat'' 1 100 (fresh_world entries))"
  let ?copy = "entry_executor\<lparr>config := entry_config_copy\<rparr>"
  have first: "fst (execute entry_executor ''cat'' 1 100 (fresh_world entries)) = Inr ?r"
    by (simp add: run_defs query_defs domain_defs parse_defs entries_def)
  then have run: "execute entry_executor ''cat'' 1 100 (fresh_world entries) = (Inr ?r, ?w')"
    by (metis prod.collapse)
  have fresh: "\<not> cache_has (cache (fresh_world entries)) k" for k
    by (simp add: cache_has_def fresh_world_def)
  have same: "entry_config_copy\<lparr>obj_id := obj_id entry_config\<rparr> = entry_config"
    by (simp add: entry_config_copy_def)
  have ids: "obj_id (config ?copy) \<noteq> obj_id (config entry_executor)"
    by (simp add: domain_defs)
  from cache_key_components[OF run fresh, of ?copy "''cat''" 1 100] ids
  have a: "cache_key_of entry_executor ''cat'' 1 100 \<noteq> cache_key_of ?copy ''cat'' 1 100"
    and b: "\<not> cache_has (cache ?w') (cache_key_of ?copy ''cat'' 1 100)"
    by (auto simp: py_id_def)
  from cache_key_components[OF run fresh, of entry_executor "''cat''" 1 100]
  have c: "cache_has (cache ?w') (cache_key_of entry_executor ''cat'' 1 100)" by simp
  from cache_key_components[OF run fresh, of entry_executor "''cat''" 2 100]
  have d: "\<not> cache_has (cache ?w') (cache_key_of entry_executor ''cat'' 2 100)" by simp
  from ids have ids': "obj_id entry_config_copy \<noteq> obj_id entry_config"
    by (simp add: domain_defs)
  from first same ids' a b c d show ?thesis by (simp add: eq_commute)
qed

text \<open>
  Claim C3. When a call of \<open>execute\<close> returns a result, a second call with the same
  configuration instance, query text, page and page size, in the state the first call
  left, returns the same pair and leaves the state as it is: the trace gains no
  event, so nothing is parsed and no backing query is executed, and the cache is not
  written. The second call returns the stored pair whatever the parser and the
  contents of the configuration are, so no token is validated either: any executor
  whose configuration has the same identity gets the same answer. A first call that
  hit the cache changed nothing; a first call that missed it parsed once, executed
  the row query and the count statement, one each, and wrote the one entry under its
  key.
\<close>

theorem execute_twice:
  assumes "execute self t p ps w = (Inr r, w')"
  shows "execute self t p ps w' = (Inr r, w')
         \<and> (\<forall>other. py_id (config other) = py_id (config self)
               \<longrightarrow> execute other t p ps w' = (Inr r, w'))
         \<and> (cache_has (cache w) (cache_key_of self t p ps) \<longrightarrow> w' = w)
         \<and> (\<not> cache_has (cache w) (cache_key_of self t p ps) \<longrightarrow>
               trace w' = trace w @ [EvParse t, EvQueryAll, EvQueryScalar,
                                      EvCachePut (cache_key_of self t p ps)]
               \<and> cache w' = (cache w)(cache_key_of self t p ps \<mapsto> r)
               \<and> dataset w' = dataset w)"
proof -
  have stored: "cache w' (cache_key_of self t p ps) = Some r"
    and shape: "(cache_has (cache w) (cache_key_of self t p ps) \<longrightarrow> w' = w)
         \<and> (\<not> cache_has (cache w) (cache_key_of self t p ps) \<longrightarrow>
               trace w' = trace w @ [EvParse t, EvQueryAll, EvQueryScalar,
                                      EvCachePut (cache_key_of self t p ps)]
               \<and> cache w' = (cache w)(cache_key_of self t p ps \<mapsto> r)
               \<and> dataset w' = dataset w)"
    using assms
    by (cases rule: execute_cases[of w self t p ps]; auto simp: cache_has_def)+
  have again: "execute self t p ps w' = (Inr r, w')"
    using stored by (rule execute_hit)
  have hit: "execute other t p ps w' = (Inr r, w')"
    if "py_id (config other) = py_id (config self)" for other
  proof -
    from that have "cache_key_of other t p ps = cache_key_of self t p ps"
      by (simp add: cache_key_of_def)
    with stored have "cache w' (cache_key_of other t p ps) = Some r" by simp
    then show ?thesis by (rule execute_hit)
  qed
  from again hit shape show ?thesis by blast
qed

theorem execute_twice_witness:
  "fst (execute entry_executor ''cat'' 1 100 (fresh_world entries))
     = Inr (Some 2,
            [\<lparr>e_name = ''cat'', e_date = ''2016-04-02'', e_user = ''bob'', e_tag = ''pet''\<rparr>,
             \<lparr>e_name = ''cat'', e_date = ''2016-04-03'', e_user = ''amy'', e_tag = ''pet''\<rparr>])
   \<and> execute entry_executor ''cat'' 1 100
        (snd (execute entry_executor ''cat'' 1 100 (fresh_world entries)))
       = (Inr (Some 2,
            [\<lparr>e_name = ''cat'', e_date = ''2016-04-02'', e_user = ''bob'', e_tag = ''pet''\<rparr>,
             \<lparr>e_name = ''cat'', e_date = ''2016-04-03'', e_user = ''amy'', e_tag = ''pet''\<rparr>]),
          snd (execute entry_executor ''cat'' 1 100 (fresh_world entries)))
   \<and> py_id (config (strict_executor\<lparr>config := strict_config\<lparr>obj_id := 1\<rparr>\<rparr>))
       = py_id (config entry_executor)
   \<and> fst (execute (strict_executor\<lparr>config := strict_config\<lparr>obj_id := 1\<rparr>\<rparr>) ''cat'' 1 100
        (fresh_world entries)) = Inl (SearchError AnonymousNotValid)
   \<and> fst (execute (strict_executor\<lparr>config := strict_config\<lparr>obj_id := 1\<rparr>\<rparr>) ''cat'' 1 100
        (snd (execute entry_executor ''cat'' 1 100 (fresh_world entries))))
       = Inr (Some 2,
            [\<lparr>e_name = ''cat'', e_date = ''2016-04-02'', e_user = ''bob'', e_tag = ''pet''\<rparr>,
             \<lparr>e_name = ''cat'', e_date = ''2016-04-03'', e_user = ''amy'', e_tag = ''pet''\<rparr>])
   \<and> \<not> cache_has (cache (fresh_world entries)) (cache_key_of entry_executor ''cat'' 1 100)
   \<and> trace (snd (execute entry_executor ''cat'' 1 100 (fresh_world entries)))
       = [EvParse ''cat'', EvQueryAll, EvQueryScalar, EvCachePut (1, ''cat'', 1, 100)]"
proof -
  let ?r = "(Some (2::int),
            [\<lparr>e_name = ''cat'', e_date = ''2016-04-02'', e_user = ''bob'', e_tag = ''pet''\<rparr>,
             \<lparr>e_name = ''cat'', e_date = ''2016-04-03'', e_user = ''amy'', e_tag = ''pet''\<rparr>])"
  let ?w' = "snd (execute entry_executor ''cat'' 1 100 (fresh_world entries))"
  let ?other = "strict_executor\<lparr>config := strict_config\<lparr>obj_id := 1\<rparr>\<rparr>"
  have first: "fst (execute entry_executor ''cat'' 1 100 (fresh_world entries)) = Inr ?r"
    by (simp add: run_defs query_defs domain_defs parse_defs entries_def)
  then have run: "execute entry_executor ''cat'' 1 100 (fresh_world entries) = (Inr ?r, ?w')"
    by (metis prod.collapse)
  note main = execute_twice[OF run]
  have same: "py_id (config ?other) = py_id (config entry_executor)"
    by (simp add: py_id_def domain_defs)
  have miss: "\<not> cache_has (cache (fresh_world entries)) (cache_key_of entry_executor ''cat'' 1 100)"
    by (simp add: cache_has_def fresh_world_def)
  from main have again: "execute entry_executor ''cat'' 1 100 ?w' = (Inr ?r, ?w')" by blast
  from main same have hit: "execute ?other ''cat'' 1 100 ?w' = (Inr ?r, ?w')" by blast
  from main miss have tr: "trace ?w' = trace (fresh_world entries)
      @ [EvParse ''cat'', EvQueryAll, EvQueryScalar,
         EvCachePut (cache_key_of entry_executor ''cat'' 1 100)]" by blast
  have rejected: "fst (execute ?other ''cat'' 1 100 (fresh_world entries))
      = Inl (SearchError AnonymousNotValid)"
    by (simp add: run_defs query_defs domain_defs parse_defs)
  have key: "cache_key_of entry_executor ''cat'' 1 100 = (1, ''cat'', 1, 100)"
    by (simp add: cache_key_of_def py_id_def domain_defs)
  have tr0: "trace (fresh_world entries) = []" by (simp add: fresh_world_def)
  show ?thesis
    using first again same rejected hit miss tr key tr0 by simp
qed

text \<open>
  Claim C10. A failed execution is not memoized. When \<open>execute\<close> raises a
  SearchError, the state afterwards differs from the state before by the one parse
  event: no backing query was executed and the cache is as it was. A second call
  with the same arguments in that state parses again and raises the same SearchError.
\<close>

theorem failed_execution_not_memoized:
  assumes "fst (execute self t p ps w) = Inl (SearchError m)"
  shows "snd (execute self t p ps w) = emit (EvParse t) w
         \<and> cache (snd (execute self t p ps w)) = cache w
         \<and> trace (snd (execute self t p ps w)) = trace w @ [EvParse t]
         \<and> execute self t p ps (snd (execute self t p ps w))
             = (Inl (SearchError m), emit (EvParse t) (emit (EvParse t) w))"
proof -
  from execute_search_error_miss[OF assms]
  have miss: "cache w (cache_key_of self t p ps) = None"
    and rej: "prepare_db_query (config self)
        (query_options LazyLoadAll (create_filter_query (config self))) (parser self t) True
          = Inl (SearchError m)"
    by simp_all
  have first: "execute self t p ps w = (Inl (SearchError m), emit (EvParse t) w)"
    by (rule execute_miss_rejected[OF miss rej])
  have miss2: "cache (emit (EvParse t) w) (cache_key_of self t p ps) = None"
    using miss by (simp add: emit_def)
  have second: "execute self t p ps (emit (EvParse t) w)
      = (Inl (SearchError m), emit (EvParse t) (emit (EvParse t) w))"
    by (rule execute_miss_rejected[OF miss2 rej])
  show ?thesis using first second by (simp add: emit_def)
qed

theorem failed_execution_not_memoized_witness:
  "fst (execute strict_executor ''cat'' 1 100 (fresh_world entries))
     = Inl (SearchError AnonymousNotValid)
   \<and> cache (snd (execute strict_executor ''cat'' 1 100 (fresh_world entries)))
       = cache (fresh_world entries)
   \<and> trace (snd (execute strict_executor ''cat'' 1 100 (fresh_world entries))) = [EvParse ''cat'']
   \<and> fst (execute strict_executor ''cat'' 1 100
            (snd (execute strict_executor ''cat'' 1 100 (fresh_world entries))))
       = Inl (SearchError AnonymousNotValid)
   \<and> trace (snd (execute strict_executor ''cat'' 1 100
            (snd (execute strict_executor ''cat'' 1 100 (fresh_world entries)))))
       = [EvParse ''cat'', EvParse ''cat'']"
proof -
  have rej: "prepare_db_query (config strict_executor)
        (query_options LazyLoadAll (create_filter_query (config strict_executor)))
        (parser strict_executor ''cat'') True = Inl (SearchError AnonymousNotValid)"
    by (simp add: prepare_db_query_def domain_defs parse_defs)
  have miss: "cache (fresh_world entries) (cache_key_of strict_executor ''cat'' 1 100) = None"
    by (simp add: fresh_world_def)
  have e: "fst (execute strict_executor ''cat'' 1 100 (fresh_world entries))
     = Inl (SearchError AnonymousNotValid)"
    using execute_miss_rejected[OF miss rej] by simp
  note main = failed_execution_not_memoized[OF e]
  from main have a: "cache (snd (execute strict_executor ''cat'' 1 100 (fresh_world entries)))
       = cache (fresh_world entries)" by blast
  from main have b: "trace (snd (execute strict_executor ''cat'' 1 100 (fresh_world entries)))
       = trace (fresh_world entries) @ [EvParse ''cat'']" by blast
  from main have c: "execute strict_executor ''cat'' 1 100
            (snd (execute strict_executor ''cat'' 1 100 (fresh_world entries)))
       = (Inl (SearchError AnonymousNotValid),
          emit (EvParse ''cat'') (emit (EvParse ''cat'') (fresh_world entries)))" by blast
  have tr: "trace (fresh_world entries) = []" by (simp add: fresh_world_def)
  show ?thesis using e a b c tr by (simp add: emit_def)
qed

end
